theory Spec2Isabelle
  imports Main "HOL-Library.Word" "HOL-Library.Product_Lexorder"
begin

unbundle bit_operations_syntax

section \<open>Errors\<close>

text \<open>
  The exceptions of the source that the model distinguishes. \<open>ChunkMalformed\<close> is a
  subclass of \<open>ChunkNotPresent\<close> in the source (mclevel.py, line 1090); the other
  constructors are the built-in Python exceptions raised by indexing, dictionary
  lookup, reshaping, assertions and file operations.
\<close>

datatype error =
    ChunkNotPresent
  | ChunkMalformed
  | IndexError
  | KeyError
  | ValueError
  | TypeError
  | AssertionError
  | IOError
  | OSError

section \<open>box.py: BoundingBox\<close>

text \<open>
  \<open>BoundingBox.__init__\<close> stores \<open>origin\<close> and \<open>size\<close> as lists of three Python
  integers (unbounded). They are modelled as triples of \<open>int\<close>, in the order x, y, z.
  The field \<open>size\<close> is named \<open>bsize\<close> (\<open>size\<close> is a constant of HOL).
\<close>

record BoundingBox =
  origin :: "int \<times> int \<times> int"
  bsize :: "int \<times> int \<times> int"

definition getMinx :: "BoundingBox \<Rightarrow> int" where
  "getMinx b = (case origin b of (ox, oy, oz) \<Rightarrow> ox)"

definition getMiny :: "BoundingBox \<Rightarrow> int" where
  "getMiny b = (case origin b of (ox, oy, oz) \<Rightarrow> oy)"

definition getMinz :: "BoundingBox \<Rightarrow> int" where
  "getMinz b = (case origin b of (ox, oy, oz) \<Rightarrow> oz)"

definition getMaxx :: "BoundingBox \<Rightarrow> int" where
  "getMaxx b = (case (origin b, bsize b) of ((ox, oy, oz), (sx, sy, sz)) \<Rightarrow> ox + sx)"

definition getMaxy :: "BoundingBox \<Rightarrow> int" where
  "getMaxy b = (case (origin b, bsize b) of ((ox, oy, oz), (sx, sy, sz)) \<Rightarrow> oy + sy)"

definition getMaxz :: "BoundingBox \<Rightarrow> int" where
  "getMaxz b = (case (origin b, bsize b) of ((ox, oy, oz), (sx, sy, sz)) \<Rightarrow> oz + sz)"

definition getWidth :: "BoundingBox \<Rightarrow> int" where
  "getWidth b = (case bsize b of (sx, sy, sz) \<Rightarrow> sx)"

definition getHeight :: "BoundingBox \<Rightarrow> int" where
  "getHeight b = (case bsize b of (sx, sy, sz) \<Rightarrow> sy)"

definition getLength :: "BoundingBox \<Rightarrow> int" where
  "getLength b = (case bsize b of (sx, sy, sz) \<Rightarrow> sz)"

text \<open>
  \<open>setMinx\<close>: \<open>self.size[0] -= x - self.origin[0]; self.origin[0] = x\<close>. There is no
  comparison with the maximum edge.
\<close>

definition setMinx :: "BoundingBox \<Rightarrow> int \<Rightarrow> BoundingBox" where
  "setMinx b v = (case (origin b, bsize b) of ((ox, oy, oz), (sx, sy, sz)) \<Rightarrow>
     b\<lparr>bsize := (sx - (v - ox), sy, sz), origin := (v, oy, oz)\<rparr>)"

definition setMiny :: "BoundingBox \<Rightarrow> int \<Rightarrow> BoundingBox" where
  "setMiny b v = (case (origin b, bsize b) of ((ox, oy, oz), (sx, sy, sz)) \<Rightarrow>
     b\<lparr>bsize := (sx, sy - (v - oy), sz), origin := (ox, v, oz)\<rparr>)"

definition setMinz :: "BoundingBox \<Rightarrow> int \<Rightarrow> BoundingBox" where
  "setMinz b v = (case (origin b, bsize b) of ((ox, oy, oz), (sx, sy, sz)) \<Rightarrow>
     b\<lparr>bsize := (sx, sy, sz - (v - oz)), origin := (ox, oy, v)\<rparr>)"

text \<open>
  \<open>setMaxx\<close>: \<open>if x < self.origin[0]: x = self.origin[0]\<close>, then
  \<open>self.size[0] = x - self.origin[0]\<close>.
\<close>

definition setMaxx :: "BoundingBox \<Rightarrow> int \<Rightarrow> BoundingBox" where
  "setMaxx b v = (case (origin b, bsize b) of ((ox, oy, oz), (sx, sy, sz)) \<Rightarrow>
     (let v' = (if v < ox then ox else v) in b\<lparr>bsize := (v' - ox, sy, sz)\<rparr>))"

definition setMaxy :: "BoundingBox \<Rightarrow> int \<Rightarrow> BoundingBox" where
  "setMaxy b v = (case (origin b, bsize b) of ((ox, oy, oz), (sx, sy, sz)) \<Rightarrow>
     (let v' = (if v < oy then oy else v) in b\<lparr>bsize := (sx, v' - oy, sz)\<rparr>))"

definition setMaxz :: "BoundingBox \<Rightarrow> int \<Rightarrow> BoundingBox" where
  "setMaxz b v = (case (origin b, bsize b) of ((ox, oy, oz), (sx, sy, sz)) \<Rightarrow>
     (let v' = (if v < oz then oz else v) in b\<lparr>bsize := (sx, sy, v' - oz)\<rparr>))"

text \<open>
  The chunk range of a box: \<open>origin >> 4\<close> and \<open>((origin + size - 1) >> 4) + 1\<close>.
  Python's \<open>>>\<close> on integers is the arithmetic shift, that is \<open>drop_bit\<close> on \<open>int\<close>
  (floor division by 16).
\<close>

definition getMincx :: "BoundingBox \<Rightarrow> int" where
  "getMincx b = drop_bit 4 (getMinx b)"

definition getMincz :: "BoundingBox \<Rightarrow> int" where
  "getMincz b = drop_bit 4 (getMinz b)"

definition getMaxcx :: "BoundingBox \<Rightarrow> int" where
  "getMaxcx b = drop_bit 4 (getMinx b + getWidth b - 1) + 1"

definition getMaxcz :: "BoundingBox \<Rightarrow> int" where
  "getMaxcz b = drop_bit 4 (getMinz b + getLength b - 1) + 1"

text \<open>The property "every size component is non-negative".\<close>

definition size_nonneg :: "BoundingBox \<Rightarrow> bool" where
  "size_nonneg b = (0 \<le> getWidth b \<and> 0 \<le> getHeight b \<and> 0 \<le> getLength b)"

section \<open>mclevel.py: directory hashing\<close>

definition base36alphabet :: string where
  "base36alphabet = ''0123456789abcdefghijklmnopqrstuvwxyz''"

text \<open>\<open>str.index\<close>: the position of the first occurrence (used only on members).\<close>

fun index_of :: "'a list \<Rightarrow> 'a \<Rightarrow> nat" where
  "index_of [] c = 0"
| "index_of (a # as) c = (if a = c then 0 else Suc (index_of as c))"

text \<open>
  The \<open>while\<close> loop of \<open>decbase36\<close>: it consumes the string from the left and stops
  (\<open>break\<close>) at the first character outside the alphabet.
\<close>

fun decbase36_loop :: "int \<Rightarrow> string \<Rightarrow> int" where
  "decbase36_loop n [] = n"
| "decbase36_loop n (c # s) =
     (if c \<notin> set base36alphabet then n
      else decbase36_loop (n * 36 + int (index_of base36alphabet c)) s)"

text \<open>\<open>s[0]\<close> on the empty string raises IndexError.\<close>

definition decbase36 :: "string \<Rightarrow> error + int" where
  "decbase36 s =
     (case s of
        [] \<Rightarrow> Inl IndexError
      | c # r \<Rightarrow>
          if c = CHR ''-'' then Inr (- decbase36_loop 0 r)
          else Inr (decbase36_loop 0 s))"

text \<open>
  \<open>dirhash\<close>: Python's \<open>%\<close> with a positive modulus gives a result in \<open>0..63\<close>, as
  \<open>mod\<close> on \<open>int\<close> does, so the index into the alphabet is in range.
\<close>

definition dirhash :: "int \<Rightarrow> string" where
  "dirhash n =
     (let n = n mod 64;
          s = '''';
          (s, n) = (if n \<ge> 36 then (s @ ''1'', n - 36) else (s, n))
      in s @ [base36alphabet ! nat n])"

text \<open>
  \<open>base36\<close> (lines 1525-1539): the \<open>while\<close> loop prepends the digits of the positive \<open>n\<close>;
  \<open>n /= 36\<close> is the integer division of Python 2.
\<close>

fun base36_loop :: "nat \<Rightarrow> string \<Rightarrow> string" where
  "base36_loop n s =
     (if n = 0 then s else base36_loop (n div 36) (base36alphabet ! (n mod 36) # s))"

declare base36_loop.simps [simp del]

definition base36 :: "int \<Rightarrow> string" where
  "base36 n =
     (if 0 = n then ''0''
      else (if n < 0 then ''-'' else []) @ base36_loop (nat \<bar>n\<bar>) [])"

text \<open>
  \<open>chunkFilename\<close> (lines 1555-1558). \<open>os.path.join\<close> puts a separator between two
  components unless the first is empty or ends with one (the later components here are
  never empty and never start with a separator).
\<close>

definition path_join :: "string \<Rightarrow> string \<Rightarrow> string" where
  "path_join a b = (if a = [] \<or> last a = CHR ''/'' then a @ b else a @ ''/'' @ b)"

definition chunkFilename :: "string \<Rightarrow> int \<Rightarrow> int \<Rightarrow> string" where
  "chunkFilename dir x z =
     path_join (path_join (path_join dir (dirhash x)) (dirhash z))
       (''c.'' @ base36 x @ ''.'' @ base36 z @ ''.dat'')"

section \<open>mclevel.py: arrays and the chunk tag\<close>

text \<open>
  The arrays of a chunk are numpy arrays of \<open>uint8\<close>. An array is modelled by its shape
  and its cells in C order (the last index varies fastest), which is how
  \<open>reshape\<close> and the assignment to \<open>.shape\<close> read them. numpy keeps the number of
  cells equal to the product of the shape; \<open>wf_ndarray\<close> states it.
\<close>

type_synonym byte = "8 word"

record ndarray =
  shape :: "nat list"
  data :: "byte list"

definition wf_ndarray :: "ndarray \<Rightarrow> bool" where
  "wf_ndarray a = (length (data a) = prod_list (shape a))"

text \<open>\<open>a[x, z, y]\<close> on a three-dimensional array and \<open>a[i, j]\<close> on a two-dimensional one.\<close>

definition at3 :: "ndarray \<Rightarrow> nat \<Rightarrow> nat \<Rightarrow> nat \<Rightarrow> byte" where
  "at3 a x z y = data a ! ((x * (shape a ! 1) + z) * (shape a ! 2) + y)"

definition at2 :: "ndarray \<Rightarrow> nat \<Rightarrow> nat \<Rightarrow> byte" where
  "at2 a i j = data a ! (i * (shape a ! 1) + j)"

text \<open>
  The keys of the \<open>Level\<close> compound that hold byte arrays (mclevel.py, lines 220-246).
  The tag-tree module \<open>nbt\<close> is not part of the repository; of the tree it builds, the
  model keeps the byte arrays of the \<open>Level\<close> compound, as a dictionary from key to
  array. A tree without a \<open>Level\<close> compound is the empty dictionary (the first lookup
  raises KeyError in both). The entity lists are not modelled.
\<close>

definition Blocks :: string where "Blocks = ''Blocks''"
definition Data :: string where "Data = ''Data''"
definition BlockLight :: string where "BlockLight = ''BlockLight''"
definition SkyLight :: string where "SkyLight = ''SkyLight''"
definition HeightMap :: string where "HeightMap = ''HeightMap''"

type_synonym tag = "string \<rightharpoonup> ndarray"

text \<open>
  \<open>InfdevChunk\<close>: the fields set by \<open>__init__\<close>. \<open>compressedTag\<close> is the cached blob
  and \<open>root_tag\<close> the materialised tag tree; \<open>None\<close> is Python's \<open>None\<close>.
\<close>

record chunk =
  chunkPosition :: "int \<times> int"
  filename :: string
  compressedTag :: "byte list option"
  root_tag :: "tag option"
  dirty :: bool
  needsCompression :: bool
  needsLighting :: bool

subsection \<open>Nibble packing\<close>

text \<open>
  The body of the loop of \<open>unpackChunkData\<close> for one array.
  \<open>dataArray.shape[2]\<close> raises IndexError on an array of fewer than three dimensions and
  the assertion fails unless it is 64. \<open>insert(dataArray[...,newaxis], 0, 0, 3)\<close> turns
  every cell \<open>b\<close> of a three-dimensional array into the pair \<open>(0, b)\<close> along a new last
  axis; the two in-place statements then make it \<open>(b & 0xf, b >> 4)\<close>. On an array of
  more dimensions the new last axis keeps length 1 and \<open>unpackedData[...,1]\<close> raises
  IndexError. \<open>reshape(16,16,128)\<close> keeps the cells in C order and raises ValueError
  unless there are \<open>16*16*128\<close> of them.
\<close>

definition unpackArray :: "ndarray \<Rightarrow> error + ndarray" where
  "unpackArray dataArray =
     (if length (shape dataArray) < 3 then Inl IndexError
      else if shape dataArray ! 2 \<noteq> 64 then Inl AssertionError
      else if length (shape dataArray) > 3 then Inl IndexError
      else
        let unpackedData = map (\<lambda>b. (0 :: byte, b)) (data dataArray);
            unpackedData = map (\<lambda>(lo, hi). (hi AND 0xf, hi)) unpackedData;
            unpackedData = map (\<lambda>(lo, hi). (lo, drop_bit 4 hi)) unpackedData;
            flat = concat (map (\<lambda>(lo, hi). [lo, hi]) unpackedData)
        in if length flat \<noteq> 16 * 16 * 128 then Inl ValueError
           else Inr \<lparr>shape = [16, 16, 128], data = flat\<rparr>)"

text \<open>\<open>reshape(16,16,64,2)\<close>: consecutive cells become the pairs of the last axis.\<close>

fun pairs :: "'a list \<Rightarrow> ('a \<times> 'a) list" where
  "pairs (a # b # r) = (a, b) # pairs r"
| "pairs _ = []"

text \<open>
  The body of the loop of \<open>packChunkData\<close> for one array: \<open>unpackedData[...,1] <<= 4\<close>
  (on \<open>uint8\<close>, the bits shifted out are lost), \<open>unpackedData[...,1] |= unpackedData[...,0]\<close>,
  and the result is \<open>unpackedData[:,:,:,1]\<close>.
\<close>

definition packArray :: "ndarray \<Rightarrow> error + ndarray" where
  "packArray dataArray =
     (if length (shape dataArray) < 3 then Inl IndexError
      else if shape dataArray ! 2 \<noteq> 128 then Inl AssertionError
      else if length (data dataArray) \<noteq> 16 * 16 * 64 * 2 then Inl ValueError
      else
        let unpackedData = pairs (data dataArray);
            unpackedData = map (\<lambda>(lo, hi). (lo, push_bit 4 hi)) unpackedData;
            unpackedData = map (\<lambda>(lo, hi). (lo, hi OR lo)) unpackedData
        in Inr \<lparr>shape = [16, 16, 64], data = map snd unpackedData\<rparr>)"

text \<open>The loop \<open>for key in (SkyLight, BlockLight, Data)\<close> over the tag.\<close>

fun map_keys :: "(ndarray \<Rightarrow> error + ndarray) \<Rightarrow> string list \<Rightarrow> tag \<Rightarrow> error + tag" where
  "map_keys f [] t = Inr t"
| "map_keys f (key # keys) t =
     (case t key of
        None \<Rightarrow> Inl KeyError
      | Some dataArray \<Rightarrow>
          (case f dataArray of
             Inl e \<Rightarrow> Inl e
           | Inr a \<Rightarrow> map_keys f keys (t(key \<mapsto> a))))"

definition nibbleKeys :: "string list" where
  "nibbleKeys = [SkyLight, BlockLight, Data]"

text \<open>
  \<open>unpackChunkData\<close> indexes \<open>self.root_tag\<close> at once (TypeError on \<open>None\<close>);
  \<open>packChunkData\<close> returns at once when \<open>self.root_tag is None\<close>.
\<close>

definition unpackChunkData :: "chunk \<Rightarrow> error + chunk" where
  "unpackChunkData c =
     (case root_tag c of
        None \<Rightarrow> Inl TypeError
      | Some t \<Rightarrow>
          (case map_keys unpackArray nibbleKeys t of
             Inl e \<Rightarrow> Inl e
           | Inr t' \<Rightarrow> Inr (c\<lparr>root_tag := Some t'\<rparr>)))"

definition packChunkData :: "chunk \<Rightarrow> error + chunk" where
  "packChunkData c =
     (case root_tag c of
        None \<Rightarrow> Inr c
      | Some t \<Rightarrow>
          (case map_keys packArray nibbleKeys t of
             Inl e \<Rightarrow> Inl e
           | Inr t' \<Rightarrow> Inr (c\<lparr>root_tag := Some t'\<rparr>)))"

text \<open>A packed nibble array as \<open>shapeChunkData\<close> leaves it: shape (16,16,64).\<close>

definition packed_shape :: "ndarray \<Rightarrow> bool" where
  "packed_shape a = (shape a = [16, 16, 64] \<and> length (data a) = 16 * 16 * 64)"

definition unpacked_shape :: "ndarray \<Rightarrow> bool" where
  "unpacked_shape a = (shape a = [16, 16, 128] \<and> length (data a) = 16 * 16 * 128)"

text \<open>The cells of an unpacked array, from the packed cells: low nibble, then high nibble.\<close>

definition nibbles :: "byte list \<Rightarrow> byte list" where
  "nibbles xs = concat (map (\<lambda>b. [b AND 0xf, drop_bit 4 b]) xs)"

definition unpacked_of :: "ndarray \<Rightarrow> ndarray" where
  "unpacked_of x = \<lparr>shape = [16, 16, 128], data = nibbles (data x)\<rparr>"

text \<open>\<open>numpy.zeros(shape, uint8)\<close>.\<close>

definition zeros :: "nat list \<Rightarrow> ndarray" where
  "zeros shp = \<lparr>shape = shp, data = replicate (prod_list shp) 0\<rparr>"

subsection \<open>Shaping, decompressing and loading a chunk\<close>

text \<open>
  Assigning to \<open>.shape\<close> raises ValueError when the number of cells does not fit; the
  lookup of the key raises KeyError. \<open>shapeChunkData\<close> shapes five arrays in turn, in
  place: an exception leaves the arrays shaped so far as they are, so the model returns
  the tag reached together with the exception, if any.
\<close>

definition set_shape :: "string \<Rightarrow> nat list \<Rightarrow> tag \<Rightarrow> error + tag" where
  "set_shape key shp t =
     (case t key of
        None \<Rightarrow> Inl KeyError
      | Some a \<Rightarrow>
          if prod_list shp \<noteq> length (data a) then Inl ValueError
          else Inr (t(key \<mapsto> a\<lparr>shape := shp\<rparr>)))"

fun shape_all :: "(string \<times> nat list) list \<Rightarrow> tag \<Rightarrow> tag \<times> error option" where
  "shape_all [] t = (t, None)"
| "shape_all ((key, shp) # r) t =
     (case set_shape key shp t of
        Inl e \<Rightarrow> (t, Some e)
      | Inr t' \<Rightarrow> shape_all r t')"

definition shapeChunkData :: "tag \<Rightarrow> tag \<times> error option" where
  "shapeChunkData chunkTag =
     shape_all [(Blocks, [16, 16, 128]), (HeightMap, [16, 16]), (SkyLight, [16, 16, 64]),
                (BlockLight, [16, 16, 64]), (''Data'', [16, 16, 64])] chunkTag"

text \<open>
  The collaborators outside the repository, taken as parameters: \<open>gunzip\<close> is
  \<open>GzipFile.read\<close> (\<open>None\<close> when it raises IOError), \<open>nbt_load\<close> is \<open>nbt.load\<close>
  (\<open>None\<close> when it raises IOError or TypeError, the exceptions \<open>decompress\<close> catches),
  and \<open>gzip_save\<close> is \<open>root_tag.save\<close> into a \<open>GzipFile\<close>, the bytes of the blob.
\<close>

record codec =
  gunzip :: "byte list \<Rightarrow> byte list option"
  nbt_load :: "byte list \<Rightarrow> tag option"
  gzip_save :: "tag \<Rightarrow> byte list"

text \<open>
  \<open>MCLevel.decompress\<close> (lines 321-348). When gzip cannot read the blob, the blob itself
  is parsed (the test \<open>data == None\<close> never holds for the string that \<open>read\<close> returns).
  Both calls of \<open>self.world.malformedChunk\<close> are commented out in the source: on
  unparseable data the method prints and returns. After a KeyError of \<open>shapeChunkData\<close>
  the tree stays assigned to \<open>root_tag\<close>; any other exception propagates.
\<close>

definition decompress :: "codec \<Rightarrow> chunk \<Rightarrow> error + chunk" where
  "decompress cdc c =
     (if root_tag c \<noteq> None then Inr c
      else case compressedTag c of
        None \<Rightarrow> Inr c
      | Some blob \<Rightarrow>
          let raw = (case gunzip cdc blob of Some d \<Rightarrow> d | None \<Rightarrow> blob) in
          (case nbt_load cdc raw of
             None \<Rightarrow> Inr c
           | Some t \<Rightarrow>
               (case shapeChunkData t of
                  (t', Some e) \<Rightarrow>
                    if e = KeyError then Inr (c\<lparr>root_tag := Some t'\<rparr>) else Inl e
                | (t', None) \<Rightarrow> unpackChunkData (c\<lparr>root_tag := Some t'\<rparr>))))"

text \<open>
  The file system is a dictionary from path to contents. \<open>InfdevChunk.load\<close> reads the
  chunk file when no blob is cached (IOError when the file does not exist), and
  decompresses when no tree is materialised.
\<close>

type_synonym filesystem = "string \<rightharpoonup> byte list"

definition load :: "filesystem \<Rightarrow> codec \<Rightarrow> chunk \<Rightarrow> error + chunk" where
  "load fs cdc c =
     (case (if compressedTag c = None
            then (case fs (filename c) of
                    None \<Rightarrow> Inl IOError
                  | Some bytes \<Rightarrow> Inr (c\<lparr>compressedTag := Some bytes\<rparr>))
            else Inr c) of
        Inl e \<Rightarrow> Inl e
      | Inr c1 \<Rightarrow> if root_tag c1 = None then decompress cdc c1 else Inr c1)"

text \<open>\<open>InfdevChunk.remove\<close>: \<open>os.remove\<close> raises OSError when the file does not exist.\<close>

definition chunk_remove :: "filesystem \<Rightarrow> chunk \<Rightarrow> error + (chunk \<times> filesystem)" where
  "chunk_remove fs c =
     (if filename c \<notin> dom fs then Inl OSError
      else Inr (c\<lparr>root_tag := None\<rparr>, fs(filename c := None)))"

text \<open>
  The array properties (\<open>Blocks\<close>, \<open>Data\<close>, \<open>HeightMap\<close>, \<open>SkyLight\<close>, \<open>BlockLight\<close>) are
  decorated with \<open>decompress_first\<close>: the getter decompresses, then indexes
  \<open>self.root_tag\<close> (TypeError on \<open>None\<close>, KeyError on a missing key). It returns the
  array and leaves the chunk decompressed. \<open>setProp\<close> is the in-place assignment to the
  cells of the array the getter returned.
\<close>

definition getProp :: "string \<Rightarrow> codec \<Rightarrow> chunk \<Rightarrow> error + (ndarray \<times> chunk)" where
  "getProp key cdc c =
     (case decompress cdc c of
        Inl e \<Rightarrow> Inl e
      | Inr c' \<Rightarrow>
          (case root_tag c' of
             None \<Rightarrow> Inl TypeError
           | Some t \<Rightarrow>
               (case t key of
                  None \<Rightarrow> Inl KeyError
                | Some a \<Rightarrow> Inr (a, c'))))"

definition setProp :: "string \<Rightarrow> ndarray \<Rightarrow> chunk \<Rightarrow> chunk" where
  "setProp key a c = c\<lparr>root_tag := map_option (\<lambda>t. t(key \<mapsto> a)) (root_tag c)\<rparr>"

subsection \<open>Height map and fast sky light\<close>

text \<open>
  The material tables come from the module \<open>materials\<close>, which is not part of the
  repository; they are parameters, tables from block id to byte. \<open>la\<close> is the global
  that \<open>genFastLights\<close> indexes.
\<close>

record materials =
  lightAbsorption :: "byte \<Rightarrow> byte"
  lightEmission :: "byte \<Rightarrow> byte"
  la :: "byte \<Rightarrow> byte"

text \<open>
  \<open>lightAbsorption[blocks].nonzero()\<close>: the indices of the non-zero cells, in C order,
  so that within a column the y indices come out increasing.
\<close>

definition nonzero3 :: "(byte \<Rightarrow> byte) \<Rightarrow> ndarray \<Rightarrow> (nat \<times> nat \<times> nat) list" where
  "nonzero3 tbl blocks =
     concat (map (\<lambda>x. concat (map (\<lambda>z. concat (map (\<lambda>y.
         if tbl (at3 blocks x z y) \<noteq> 0 then [(x, z, y)] else [])
       [0..<shape blocks ! 2])) [0..<shape blocks ! 1])) [0..<shape blocks ! 0])"

text \<open>
  \<open>heightMap[axes[1], axes[0]] = axes[2]\<close>: the assignments are made in the order of the
  index arrays, so for a repeated position the last value stays. The index \<open>y\<close> is cast
  to \<open>uint8\<close>. An index outside the height map raises IndexError.
\<close>

fun assign_heights :: "(nat \<times> nat \<times> nat) list \<Rightarrow> ndarray \<Rightarrow> error + ndarray" where
  "assign_heights [] heightMap = Inr heightMap"
| "assign_heights ((x, z, y) # r) heightMap =
     (if z < shape heightMap ! 0 \<and> x < shape heightMap ! 1
      then assign_heights r
             (heightMap\<lparr>data := (data heightMap)[z * (shape heightMap ! 1) + x := of_nat y]\<rparr>)
      else Inl IndexError)"

text \<open>
  \<open>InfdevChunk.generateHeightMap\<close> (lines 1270-1280): \<open>heightMap[:] = 0\<close>, the indexed
  assignment, then \<open>heightMap += 1\<close> on every cell. \<open>Blocks\<close> is one-dimensional as
  loaded and three-dimensional once shaped, the height map one- or two-dimensional; on
  the unshaped arrays the indexing raises IndexError.
\<close>

definition generateHeightMap ::
  "filesystem \<Rightarrow> codec \<Rightarrow> materials \<Rightarrow> chunk \<Rightarrow> error + chunk" where
  "generateHeightMap fs cdc m c =
     (case (if root_tag c = None then load fs cdc c else Inr c) of
        Inl e \<Rightarrow> Inl e
      | Inr c1 \<Rightarrow>
     (case getProp Blocks cdc c1 of
        Inl e \<Rightarrow> Inl e
      | Inr (blocks, c2) \<Rightarrow>
     (case getProp HeightMap cdc c2 of
        Inl e \<Rightarrow> Inl e
      | Inr (heightMap, c3) \<Rightarrow>
          if length (shape blocks) \<noteq> 3 \<or> length (shape heightMap) \<noteq> 2 then Inl IndexError
          else
            let heightMap = heightMap\<lparr>data := map (\<lambda>_. 0) (data heightMap)\<rparr> in
            (case assign_heights (nonzero3 (lightAbsorption m) blocks) heightMap of
               Inl e \<Rightarrow> Inl e
             | Inr heightMap \<Rightarrow>
                 Inr (setProp HeightMap
                        (heightMap\<lparr>data := map (\<lambda>v. v + 1) (data heightMap)\<rparr>) c3)))))"

text \<open>
  \<open>genFastLights\<close>, one column: after \<open>SkyLight[x,z,h:128] = 15\<close> the loop runs \<open>y\<close> from
  \<open>h - 1\<close> down to 0 with the Python integer \<open>lv\<close>, and stops when \<open>lv <= 0\<close>.
  \<open>Blocks[x,z,y]\<close> raises IndexError for \<open>y\<close> beyond the array.
\<close>

fun fast_column :: "(byte \<Rightarrow> byte) \<Rightarrow> (nat \<Rightarrow> byte) \<Rightarrow> int \<Rightarrow> nat \<Rightarrow> byte list \<Rightarrow> error + byte list" where
  "fast_column tbl blocks lv 0 col = Inr col"
| "fast_column tbl blocks lv (Suc y) col =
     (if y \<ge> 128 then Inl IndexError
      else
        let lv = lv - max (uint (tbl (blocks y))) 1 in
        if lv \<le> 0 then Inr col
        else fast_column tbl blocks lv y (col[y := of_int lv]))"

definition fast_column_at :: "(byte \<Rightarrow> byte) \<Rightarrow> ndarray \<Rightarrow> ndarray \<Rightarrow> nat \<times> nat \<Rightarrow> error + byte list" where
  "fast_column_at tbl blocks heightMap p =
     (case p of (x, z) \<Rightarrow>
        let h = unat (at2 heightMap z x) in
        fast_column tbl (\<lambda>y. at3 blocks x z y) 15 h
          (replicate (min h 128) 0 @ replicate (128 - h) 15))"

text \<open>The loop over \<open>itertools.product(xrange(16), xrange(16))\<close>, column after column.\<close>

fun fast_columns :: "(nat \<times> nat \<Rightarrow> error + byte list) \<Rightarrow> (nat \<times> nat) list \<Rightarrow> error + byte list" where
  "fast_columns f [] = Inr []"
| "fast_columns f (p # r) =
     (case f p of
        Inl e \<Rightarrow> Inl e
      | Inr col \<Rightarrow>
          (case fast_columns f r of
             Inl e \<Rightarrow> Inl e
           | Inr d \<Rightarrow> Inr (col @ d)))"

definition genFastLights :: "codec \<Rightarrow> materials \<Rightarrow> chunk \<Rightarrow> error + chunk" where
  "genFastLights cdc m c =
     (case getProp SkyLight cdc c of
        Inl e \<Rightarrow> Inl e
      | Inr (skyLight, c1) \<Rightarrow>
     (case getProp HeightMap cdc c1 of
        Inl e \<Rightarrow> Inl e
      | Inr (heightMap, c2) \<Rightarrow>
     (case getProp Blocks cdc c2 of
        Inl e \<Rightarrow> Inl e
      | Inr (blocks, c3) \<Rightarrow>
          if \<not> (unpacked_shape skyLight \<and> unpacked_shape blocks
                \<and> shape heightMap = [16, 16] \<and> length (data heightMap) = 16 * 16)
          then Inl IndexError
          else
            (case fast_columns (fast_column_at (la m) blocks heightMap)
                    (List.product [0..<16] [0..<16]) of
               Inl e \<Rightarrow> Inl e
             | Inr d \<Rightarrow> Inr (setProp SkyLight (skyLight\<lparr>data := d\<rparr>) c3)))))"

text \<open>\<open>InfdevChunk.chunkChanged\<close> (lines 1235-1247), with its \<open>if\<close>/\<open>elif\<close>.\<close>

definition chunkChanged ::
  "filesystem \<Rightarrow> codec \<Rightarrow> materials \<Rightarrow> chunk \<Rightarrow> bool \<Rightarrow> error + chunk" where
  "chunkChanged fs cdc m c calcLighting =
     (let continue = (\<lambda>c.
            let c = c\<lparr>dirty := True\<rparr>;
                c = c\<lparr>needsLighting := True\<rparr>
            in case generateHeightMap fs cdc m c of
                 Inl e \<Rightarrow> Inl e
               | Inr c \<Rightarrow> if calcLighting then genFastLights cdc m c else Inr c)
      in if root_tag c \<noteq> None then continue (c\<lparr>needsCompression := True\<rparr>)
         else if compressedTag c = None then Inr c
         else continue c)"

text \<open>
  The byte arrays of the tag that \<open>InfdevChunk.create\<close> builds (lines 1130-1160), before
  \<open>shapeChunkData\<close> and \<open>unpackChunkData\<close> are applied to it, and the chunk object that
  \<open>create\<close> has built when it reaches \<open>self.save()\<close>.
\<close>

definition created_tag :: tag where
  "created_tag =
     [BlockLight \<mapsto> zeros [16 * 16 * 64],
      Blocks \<mapsto> zeros [16 * 16 * 128],
      Data \<mapsto> zeros [16 * 16 * 64],
      SkyLight \<mapsto> zeros [16 * 16 * 64],
      HeightMap \<mapsto> zeros [16 * 16]]"

definition shaped_tag :: tag where
  "shaped_tag = fst (shapeChunkData created_tag)"

definition unpacked_tag :: tag where
  "unpacked_tag =
     (case map_keys unpackArray nibbleKeys shaped_tag of Inr t \<Rightarrow> t | Inl e \<Rightarrow> shaped_tag)"

definition new_chunk :: "int \<times> int \<Rightarrow> string \<Rightarrow> tag option \<Rightarrow> chunk" where
  "new_chunk pos name t =
     \<lparr>chunkPosition = pos, filename = name, compressedTag = None, root_tag = t,
      dirty = False, needsCompression = False, needsLighting = False\<rparr>"

text \<open>
  \<open>MCLevel.compress\<close> (lines 299-319): nothing to do without a tree; the blob is rebuilt
  from the packed tree when it is stale or missing; the tree is dropped.
\<close>

definition compress :: "codec \<Rightarrow> chunk \<Rightarrow> error + chunk" where
  "compress cdc c =
     (if root_tag c = None then Inr c
      else if needsCompression c \<or> (compressedTag c = None \<and> root_tag c \<noteq> None) then
        (case packChunkData c of
           Inl e \<Rightarrow> Inl e
         | Inr c1 \<Rightarrow>
             (case root_tag c1 of
                None \<Rightarrow> Inl TypeError
              | Some t \<Rightarrow>
                  Inr (c1\<lparr>compressedTag := Some (gzip_save cdc t),
                          needsCompression := False, root_tag := None\<rparr>)))
      else Inr (c\<lparr>root_tag := None\<rparr>))"

text \<open>
  \<open>InfdevChunk.save\<close> (lines 1190-1218): \<open>compress\<close>, and only \<open>if self.dirty\<close> the file is
  written: the existing file is renamed to \<open>.old\<close> (ignored when there is none), the blob
  is written, the \<open>.old\<close> file is removed, and \<open>dirty\<close> is cleared. A clean chunk touches no
  file. The file system has no directories, so the write itself never fails.
\<close>

definition save :: "filesystem \<Rightarrow> codec \<Rightarrow> chunk \<Rightarrow> error + (chunk \<times> filesystem)" where
  "save fs cdc c =
     (case compress cdc c of
        Inl e \<Rightarrow> Inl e
      | Inr c1 \<Rightarrow>
          if dirty c1 then
            (let old = filename c1 @ ''.old'';
                 fs1 = (case fs (filename c1) of
                          None \<Rightarrow> fs
                        | Some b \<Rightarrow> (fs(filename c1 := None))(old \<mapsto> b))
             in case compressedTag c1 of
                  None \<Rightarrow> Inl TypeError
                | Some blob \<Rightarrow>
                    Inr (c1\<lparr>dirty := False\<rparr>, (fs1(filename c1 \<mapsto> blob))(old := None)))
          else Inr (c1, fs))"

text \<open>
  \<open>InfdevChunk.create\<close> (lines 1130-1184): the new tree is shaped and unpacked, the two
  \<open>os.mkdir\<close> calls ignore every failure, and the chunk is saved. The constructor
  (lines 1115-1125) clears the three flags, \<open>dirty\<close> among them, before it calls \<open>create\<close>.
\<close>

definition create :: "filesystem \<Rightarrow> codec \<Rightarrow> chunk \<Rightarrow> error + (chunk \<times> filesystem)" where
  "create fs cdc c =
     (case shapeChunkData created_tag of
        (t, Some e) \<Rightarrow> Inl e
      | (t, None) \<Rightarrow>
          (case unpackChunkData (c\<lparr>root_tag := Some t\<rparr>) of
             Inl e \<Rightarrow> Inl e
           | Inr c1 \<Rightarrow> save fs cdc c1))"

definition InfdevChunk ::
  "filesystem \<Rightarrow> codec \<Rightarrow> string \<Rightarrow> int \<times> int \<Rightarrow> bool \<Rightarrow> error + (chunk \<times> filesystem)" where
  "InfdevChunk fs cdc dir pos create_it =
     (let c = new_chunk pos (chunkFilename dir (fst pos) (snd pos)) None
      in if create_it then create fs cdc c else Inr (c, fs))"

section \<open>mclevel.py: the chunk store (MCInfdevOldLevel)\<close>

text \<open>
  The level owns the dictionary \<open>_presentChunks\<close> from chunk coordinates to chunk
  objects. The chunk objects are mutated in place in the source; in the model every
  operation that changes a chunk stores the new value under its key. The files under the
  world directory are part of the state. \<open>Height\<close> is the constant 128.
\<close>

record world =
  worldDir :: string
  presentChunks :: "(int \<times> int) \<rightharpoonup> chunk"
  files :: filesystem

definition Height :: int where
  "Height = 128"

definition containsChunk :: "world \<Rightarrow> int \<Rightarrow> int \<Rightarrow> bool" where
  "containsChunk w cx cz = ((cx, cz) \<in> dom (presentChunks w))"

text \<open>\<open>malformedChunk\<close> (line 2226) deletes the entry. Nothing in the source calls it.\<close>

definition malformedChunk :: "world \<Rightarrow> int \<Rightarrow> int \<Rightarrow> error + world" where
  "malformedChunk w cx cz =
     (if (cx, cz) \<notin> dom (presentChunks w) then Inl KeyError
      else Inr (w\<lparr>presentChunks := (presentChunks w)((cx, cz) := None)\<rparr>))"

text \<open>
  \<open>getChunk\<close> (lines 1682-1692): the membership test, \<open>c.load()\<close>, the second
  membership test, \<open>return c\<close>. \<open>c.load()\<close> changes the chunk object and nothing else.
\<close>

definition getChunk :: "codec \<Rightarrow> world \<Rightarrow> int \<Rightarrow> int \<Rightarrow> error + (chunk \<times> world)" where
  "getChunk cdc w cx cz =
     (case presentChunks w (cx, cz) of
        None \<Rightarrow> Inl ChunkNotPresent
      | Some c \<Rightarrow>
          (case load (files w) cdc c of
             Inl e \<Rightarrow> Inl e
           | Inr c' \<Rightarrow>
               let w' = w\<lparr>presentChunks := (presentChunks w)((cx, cz) \<mapsto> c')\<rparr> in
               if (cx, cz) \<notin> dom (presentChunks w') then Inl ChunkMalformed
               else Inr (c', w')))"

text \<open>\<open>createChunk\<close> (lines 2230-2232).\<close>

definition createChunk :: "codec \<Rightarrow> world \<Rightarrow> int \<Rightarrow> int \<Rightarrow> error + world" where
  "createChunk cdc w cx cz =
     (if (cx, cz) \<in> dom (presentChunks w) then Inl ValueError
      else case InfdevChunk (files w) cdc (worldDir w) (cx, cz) True of
             Inl e \<Rightarrow> Inl e
           | Inr (c, fs) \<Rightarrow>
               Inr (w\<lparr>files := fs, presentChunks := (presentChunks w)((cx, cz) \<mapsto> c)\<rparr>))"

text \<open>\<open>deleteChunk\<close> (lines 2236-2240).\<close>

definition deleteChunk :: "world \<Rightarrow> int \<Rightarrow> int \<Rightarrow> error + world" where
  "deleteChunk w cx cz =
     (case presentChunks w (cx, cz) of
        None \<Rightarrow> Inr w
      | Some c \<Rightarrow>
          (case chunk_remove (files w) c of
             Inl e \<Rightarrow> Inl e
           | Inr (c', fs') \<Rightarrow>
               Inr (w\<lparr>files := fs', presentChunks := (presentChunks w)((cx, cz) := None)\<rparr>)))"

text \<open>
  \<open>blocksForChunk\<close> and \<open>skyLightForChunk\<close>: \<open>self.getChunk(cx, cz).Blocks\<close> and
  \<open>.SkyLight\<close>. The getter may decompress the chunk object, which is the one in the
  dictionary.
\<close>

definition arrayForChunk ::
  "string \<Rightarrow> codec \<Rightarrow> world \<Rightarrow> int \<Rightarrow> int \<Rightarrow> error + (ndarray \<times> world)" where
  "arrayForChunk key cdc w cx cz =
     (case getChunk cdc w cx cz of
        Inl e \<Rightarrow> Inl e
      | Inr (c, w1) \<Rightarrow>
          (case getProp key cdc c of
             Inl e \<Rightarrow> Inl e
           | Inr (a, c') \<Rightarrow>
               Inr (a, w1\<lparr>presentChunks := (presentChunks w1)((cx, cz) \<mapsto> c')\<rparr>)))"

definition blocksForChunk :: "codec \<Rightarrow> world \<Rightarrow> int \<Rightarrow> int \<Rightarrow> error + (ndarray \<times> world)" where
  "blocksForChunk = arrayForChunk Blocks"

definition skyLightForChunk :: "codec \<Rightarrow> world \<Rightarrow> int \<Rightarrow> int \<Rightarrow> error + (ndarray \<times> world)" where
  "skyLightForChunk = arrayForChunk SkyLight"

text \<open>
  \<open>setSkylightAt\<close> (lines 1647-1660). \<open>x >> 4\<close> and \<open>x & 0xf\<close> are Python's operations
  on unbounded integers, which \<open>drop_bit\<close> and \<open>AND\<close> on \<open>int\<close> are. \<open>lightValue\<close> is a
  light value: a value of the cells of the light arrays, which are \<open>uint8\<close>; the comparison
  with the cell compares the numbers. The early \<open>return 0\<close> is modelled as \<open>False\<close>.
  Indexing the array outside its shape raises IndexError.
\<close>

definition setSkylightAt ::
  "codec \<Rightarrow> world \<Rightarrow> int \<Rightarrow> int \<Rightarrow> int \<Rightarrow> byte \<Rightarrow> error + (bool \<times> world)" where
  "setSkylightAt cdc w x y z lightValue =
     (if y < 0 \<or> y \<ge> Height then Inr (False, w)
      else
        let zc = drop_bit 4 z;
            xc = drop_bit 4 x;
            xInChunk = nat (x AND 0xf);
            zInChunk = nat (z AND 0xf)
        in case skyLightForChunk cdc w xc zc of
             Inl e \<Rightarrow> Inl e
           | Inr (skyLight, w1) \<Rightarrow>
               if length (shape skyLight) \<noteq> 3 \<or> xInChunk \<ge> shape skyLight ! 0
                  \<or> zInChunk \<ge> shape skyLight ! 1 \<or> nat y \<ge> shape skyLight ! 2
               then Inl IndexError
               else
                 let oldValue = at3 skyLight xInChunk zInChunk (nat y);
                     i = (xInChunk * (shape skyLight ! 1) + zInChunk) * (shape skyLight ! 2) + nat y
                 in if oldValue < lightValue
                    then Inr (True,
                      w1\<lparr>presentChunks := (presentChunks w1)((xc, zc) :=
                          map_option (setProp SkyLight
                             (skyLight\<lparr>data := (data skyLight)[i := lightValue]\<rparr>))
                            (presentChunks w1 (xc, zc)))\<rparr>)
                    else Inr (False, w1))"

subsection \<open>Concrete inputs\<close>

text \<open>
  A world holding one chunk at (0,0), and two instances of the external codec: one that
  rejects every blob (gzip and \<open>nbt.load\<close> both raise, as they do on a corrupted file)
  and one that decodes every blob to the tag of a freshly created chunk.
\<close>

definition one_chunk_world :: "chunk \<Rightarrow> filesystem \<Rightarrow> world" where
  "one_chunk_world c fs = \<lparr>worldDir = ''world'', presentChunks = [(0, 0) \<mapsto> c], files = fs\<rparr>"

definition empty_world :: world where
  "empty_world = \<lparr>worldDir = ''world'', presentChunks = Map.empty, files = Map.empty\<rparr>"

definition rejecting_codec :: codec where
  "rejecting_codec =
     \<lparr>gunzip = (\<lambda>_. None), nbt_load = (\<lambda>_. None), gzip_save = (\<lambda>_. [1, 2])\<rparr>"

definition fresh_codec :: codec where
  "fresh_codec =
     \<lparr>gunzip = (\<lambda>b. Some b), nbt_load = (\<lambda>_. Some created_tag), gzip_save = (\<lambda>_. [1, 2])\<rparr>"

text \<open>A material table in which air (block id 0) is transparent and dark.\<close>

definition air_materials :: materials where
  "air_materials =
     \<lparr>lightAbsorption = (\<lambda>b. if b = 0 then 0 else 15),
      lightEmission = (\<lambda>b. 0),
      la = (\<lambda>b. if b = 0 then 0 else 15)\<rparr>"

text \<open>
  A loaded chunk of air whose sky light is \<open>s\<close> in every cell (the blob is cached, so
  \<open>load\<close> does not read the file), and the world that holds it at (0,0).
\<close>

definition full_array :: "byte \<Rightarrow> ndarray" where
  "full_array v = \<lparr>shape = [16, 16, 128], data = replicate (16 * 16 * 128) v\<rparr>"

definition air_tag :: "byte \<Rightarrow> tag" where
  "air_tag s =
     [Blocks \<mapsto> full_array 0, Data \<mapsto> full_array 0, BlockLight \<mapsto> full_array 0,
      HeightMap \<mapsto> zeros [16, 16], SkyLight \<mapsto> full_array s]"

definition air_chunk :: "byte \<Rightarrow> chunk" where
  "air_chunk s = (new_chunk (0, 0) ''c.0.0.dat'' (Some (air_tag s)))\<lparr>compressedTag := Some []\<rparr>"

definition air_world :: "byte \<Rightarrow> world" where
  "air_world s = one_chunk_world (air_chunk s) Map.empty"

subsection \<open>Loaded chunks\<close>

text \<open>
  The state of a chunk after a successful \<open>decompress\<close>: the tree is materialised and
  holds the five arrays in the shapes that \<open>shapeChunkData\<close> and \<open>unpackChunkData\<close> give
  them. \<open>array_of\<close> reads an array of the tree, if there is one.
\<close>

definition wf_tag :: "tag \<Rightarrow> bool" where
  "wf_tag t =
     ((case t Blocks of Some a \<Rightarrow> unpacked_shape a | None \<Rightarrow> False)
    \<and> (case t Data of Some a \<Rightarrow> unpacked_shape a | None \<Rightarrow> False)
    \<and> (case t SkyLight of Some a \<Rightarrow> unpacked_shape a | None \<Rightarrow> False)
    \<and> (case t BlockLight of Some a \<Rightarrow> unpacked_shape a | None \<Rightarrow> False)
    \<and> (case t HeightMap of
          Some a \<Rightarrow> shape a = [16, 16] \<and> length (data a) = 16 * 16
        | None \<Rightarrow> False))"

definition loaded :: "chunk \<Rightarrow> bool" where
  "loaded c = (case root_tag c of Some t \<Rightarrow> wf_tag t | None \<Rightarrow> False)"

definition array_of :: "chunk \<Rightarrow> string \<Rightarrow> ndarray option" where
  "array_of c key = (case root_tag c of Some t \<Rightarrow> t key | None \<Rightarrow> None)"

text \<open>The three flags of the result of an operation on a chunk, or its exception.\<close>

definition result_flags :: "error + chunk \<Rightarrow> error + (bool \<times> bool \<times> bool)" where
  "result_flags r = map_sum id (\<lambda>c. (needsCompression c, dirty c, needsLighting c)) r"

definition same_flags :: "chunk \<Rightarrow> chunk \<Rightarrow> bool" where
  "same_flags c c' =
     (dirty c' = dirty c \<and> needsCompression c' = needsCompression c
      \<and> needsLighting c' = needsLighting c)"

text \<open>A chunk that holds only a compressed blob (any bytes: \<open>fresh_codec\<close> decodes them).\<close>

definition compressed_chunk :: chunk where
  "compressed_chunk = (new_chunk (0, 0) ''c.0.0.dat'' None)\<lparr>compressedTag := Some [1, 2]\<rparr>"

text \<open>The chunk object that \<open>createChunk(0, 0)\<close> leaves in the store of \<open>empty_world\<close>.\<close>

definition created_chunk :: chunk where
  "created_chunk =
     (new_chunk (0, 0) ''world/0/0/c.0.0.dat'' None)\<lparr>compressedTag := Some [1, 2]\<rparr>"

definition with_flags :: "bool \<Rightarrow> bool \<Rightarrow> bool \<Rightarrow> chunk \<Rightarrow> chunk" where
  "with_flags a b d c = c\<lparr>needsCompression := a, dirty := b, needsLighting := d\<rparr>"

section \<open>mclevel.py: getChunkSlices\<close>

text \<open>
  A Python \<open>slice(a, b)\<close> object is the pair of its bounds. One item that the generator
  yields: the chunk object, the slices ordered x, z, y, and the offset ordered x, y, z.
\<close>

type_synonym slice = "int \<times> int"
type_synonym piece = "(slice \<times> slice \<times> slice) \<times> (int \<times> int \<times> int)"

text \<open>
  The arithmetic of the loop body of \<open>getChunkSlices\<close> (lines 2075-2100) for the chunk
  \<open>(cx, cz)\<close>: the slices and the offset it yields. \<open>cx << 4\<close> on a Python integer is
  \<open>push_bit 4\<close> on \<open>int\<close>.
\<close>

definition slices_at :: "BoundingBox \<Rightarrow> int \<Rightarrow> int \<Rightarrow> piece" where
  "slices_at box cx cz =
     (let minxoff = getMinx box - push_bit 4 (getMincx box);
          minzoff = getMinz box - push_bit 4 (getMincz box);
          maxxoff = getMaxx box - push_bit 4 (getMaxcx box) + 16;
          maxzoff = getMaxz box - push_bit 4 (getMaxcz box) + 16;
          localMinX = (if cx = getMincx box then minxoff else 0);
          localMaxX = (if cx = getMaxcx box - 1 then maxxoff else 16);
          newMinX = localMinX + push_bit 4 cx - getMinx box;
          localMinZ = (if cz = getMincz box then minzoff else 0);
          localMaxZ = (if cz = getMaxcz box - 1 then maxzoff else 16);
          newMinZ = localMinZ + push_bit 4 cz - getMinz box
      in (((localMinX, localMaxX), (localMinZ, localMaxZ), (getMiny box, getMaxy box)),
          (newMinX, 0, newMinZ)))"

text \<open>
  The two nested \<open>for\<close> loops run over \<open>range(mincx, maxcx)\<close> and \<open>range(mincz, maxcz)\<close>,
  \<open>cx\<close> outermost. For each coordinate \<open>blocksForChunk\<close> is tried; \<open>ChunkNotPresent\<close>
  (and its subclass \<open>ChunkMalformed\<close>) is caught and the coordinate skipped, any other
  exception propagates. The yielded chunk is the result of a second \<open>getChunk\<close>. The
  generator is modelled run to its end, the items collected in order.
\<close>

definition chunk_coords :: "BoundingBox \<Rightarrow> (int \<times> int) list" where
  "chunk_coords box =
     List.product [getMincx box..getMaxcx box - 1] [getMincz box..getMaxcz box - 1]"

fun slices_loop ::
  "codec \<Rightarrow> BoundingBox \<Rightarrow> (int \<times> int) list \<Rightarrow> world \<Rightarrow> error + ((chunk \<times> piece) list \<times> world)" where
  "slices_loop cdc box [] w = Inr ([], w)"
| "slices_loop cdc box ((cx, cz) # r) w =
     (case blocksForChunk cdc w cx cz of
        Inl e \<Rightarrow>
          if e = ChunkNotPresent \<or> e = ChunkMalformed then slices_loop cdc box r w
          else Inl e
      | Inr (blocks, w1) \<Rightarrow>
          (case getChunk cdc w1 cx cz of
             Inl e \<Rightarrow> Inl e
           | Inr (c, w2) \<Rightarrow>
               (case slices_loop cdc box r w2 of
                  Inl e \<Rightarrow> Inl e
                | Inr (ys, w3) \<Rightarrow> Inr ((c, slices_at box cx cz) # ys, w3))))"

definition getChunkSlices ::
  "codec \<Rightarrow> world \<Rightarrow> BoundingBox \<Rightarrow> error + ((chunk \<times> piece) list \<times> world)" where
  "getChunkSlices cdc w box = slices_loop cdc box (chunk_coords box) w"

text \<open>
  The part of the region, in the region's own frame, that a piece addresses: the
  rectangle that starts at the offset and has the extent of the x and z slices. The y
  slice of a piece is its third slice.
\<close>

definition covers :: "piece \<Rightarrow> int \<Rightarrow> int \<Rightarrow> bool" where
  "covers p i j =
     (case p of (((lx, hx), (lz, hz), sy), (ox, oy, oz)) \<Rightarrow>
        ox \<le> i \<and> i < ox + (hx - lx) \<and> oz \<le> j \<and> j < oz + (hz - lz))"

definition sliceY :: "piece \<Rightarrow> slice" where
  "sliceY p = (case p of ((sx, sz, sy), off) \<Rightarrow> sy)"

definition in_chunk :: "piece \<Rightarrow> bool" where
  "in_chunk p =
     (case p of (((lx, hx), (lz, hz), sy), off) \<Rightarrow>
        0 \<le> lx \<and> lx \<le> hx \<and> hx \<le> 16 \<and> 0 \<le> lz \<and> lz \<le> hz \<and> hz \<le> 16)"

text \<open>
  The part of the box that falls in chunk \<open>(cx, cz)\<close>, written from the region and not from
  the loop: along x the box spans \<open>[minx, maxx)\<close> and the chunk \<open>[16 cx, 16 cx + 16)\<close>; their
  intersection, in the chunk's frame, is the x slice, and its start in the region's frame
  is the x offset; the same along z; the y slice is \<open>[miny, maxy)\<close> and the y offset 0.
\<close>

definition clipped_piece :: "BoundingBox \<Rightarrow> int \<Rightarrow> int \<Rightarrow> piece" where
  "clipped_piece box cx cz =
     (let x0 = max (getMinx box) (16 * cx);
          x1 = min (getMaxx box) (16 * cx + 16);
          z0 = max (getMinz box) (16 * cz);
          z1 = min (getMaxz box) (16 * cz + 16)
      in (((x0 - 16 * cx, x1 - 16 * cx), (z0 - 16 * cz, z1 - 16 * cz), (getMiny box, getMaxy box)),
          (x0 - getMinx box, 0, z0 - getMinz box)))"

text \<open>
  A chunk object from which \<open>getChunk\<close> followed by \<open>.Blocks\<close> succeeds: it loads (from
  its blob or its file) and its tree has the \<open>Blocks\<close> array.
\<close>

definition fetchable :: "codec \<Rightarrow> filesystem \<Rightarrow> chunk \<Rightarrow> bool" where
  "fetchable cdc fs c =
     (case load fs cdc c of
        Inl e \<Rightarrow> False
      | Inr c1 \<Rightarrow> (case getProp Blocks cdc c1 of Inl e \<Rightarrow> False | Inr r \<Rightarrow> True))"

text \<open>A box at the origin, 128 high and two chunks wide along x.\<close>

definition two_chunk_box :: BoundingBox where
  "two_chunk_box = \<lparr>origin = (0, 0, 0), bsize = (32, 128, 16)\<rparr>"

text \<open>
  A box that is aligned with no chunk border, over the chunks (0,0) and (1,0), and a store
  that holds these two chunks, each with its blob only.
\<close>

definition unaligned_box :: BoundingBox where
  "unaligned_box = \<lparr>origin = (5, 0, 3), bsize = (20, 128, 10)\<rparr>"

definition two_chunk_world :: world where
  "two_chunk_world =
     \<lparr>worldDir = ''world'',
      presentChunks =
        [(0, 0) \<mapsto> created_chunk,
         (1, 0) \<mapsto> (new_chunk (1, 0) ''world/1/0/c.1.0.dat'' None)\<lparr>compressedTag := Some [1, 2]\<rparr>],
      files = Map.empty\<rparr>"

section \<open>mclevel.py: generateLights\<close>

text \<open>
  The relaxation works on the level and on the \<open>ZeroChunk\<close> placebo. In \<open>ZeroChunk\<close> the
  attributes \<open>Blocks\<close>, \<open>BlockLight\<close>, \<open>SkyLight\<close> and \<open>Data\<close> are one and the same array
  object (lines 1092-1103), so the state holds one buffer for all of them. A neighbour is
  either that placebo or the chunk of the store at a coordinate.
\<close>

record lights =
  lworld :: world
  zero_buffer :: ndarray

datatype chunk_ref = Zero | Present "int \<times> int"

text \<open>
  Reading an array of a chunk of the store. The getters decompress first; in the
  relaxation every chunk that is read has its tree materialised (the working set by the
  initialisation, which raises otherwise, the neighbours by the assertion after
  \<open>getChunk\<close>), so that \<open>decompress\<close> returns at once and the getter is the lookup. The
  array operations of a pass are written for the shape (16,16,128) that every loaded
  chunk has; on arrays of another shape the slices do not fit together and numpy raises
  ValueError.
\<close>

definition get_array :: "world \<Rightarrow> int \<times> int \<Rightarrow> string \<Rightarrow> error + ndarray" where
  "get_array w p key =
     (case presentChunks w p of
        None \<Rightarrow> Inl KeyError
      | Some c \<Rightarrow>
          (case root_tag c of
             None \<Rightarrow> Inl TypeError
           | Some t \<Rightarrow>
               (case t key of
                  None \<Rightarrow> Inl KeyError
                | Some a \<Rightarrow> if unpacked_shape a then Inr a else Inl ValueError)))"

definition put_array :: "world \<Rightarrow> int \<times> int \<Rightarrow> string \<Rightarrow> ndarray \<Rightarrow> world" where
  "put_array w p key a =
     w\<lparr>presentChunks := (presentChunks w)(p := map_option (setProp key a) (presentChunks w p))\<rparr>"

definition ref_blocks :: "lights \<Rightarrow> chunk_ref \<Rightarrow> error + ndarray" where
  "ref_blocks st r =
     (case r of
        Zero \<Rightarrow> if unpacked_shape (zero_buffer st) then Inr (zero_buffer st) else Inl ValueError
      | Present p \<Rightarrow> get_array (lworld st) p Blocks)"

definition ref_light :: "lights \<Rightarrow> string \<Rightarrow> chunk_ref \<Rightarrow> error + ndarray" where
  "ref_light st light r =
     (case r of
        Zero \<Rightarrow> if unpacked_shape (zero_buffer st) then Inr (zero_buffer st) else Inl ValueError
      | Present p \<Rightarrow> get_array (lworld st) p light)"

definition put_light :: "lights \<Rightarrow> string \<Rightarrow> chunk_ref \<Rightarrow> ndarray \<Rightarrow> lights" where
  "put_light st light r a =
     (case r of
        Zero \<Rightarrow> st\<lparr>zero_buffer := a\<rparr>
      | Present p \<Rightarrow> st\<lparr>lworld := put_array (lworld st) p light a\<rparr>)"

text \<open>
  An array of shape (16,16,128) given cell by cell, and the three statements that every
  exchange of a pass consists of: \<open>newlight = ...\<close>, \<open>newlight[newlight>15] = 0\<close> and
  \<open>a[slice] = maximum(a[slice], newlight)\<close>. \<open>inside\<close> says which cells the slice holds;
  \<open>newlight\<close> is given at the position of the destination cell. All arithmetic is that
  of \<open>uint8\<close>.
\<close>

definition tabulate3 :: "(nat \<Rightarrow> nat \<Rightarrow> nat \<Rightarrow> byte) \<Rightarrow> ndarray" where
  "tabulate3 f =
     \<lparr>shape = [16, 16, 128],
      data = map (\<lambda>i. f (i div (16 * 128)) (i div 128 mod 16) (i mod 128)) [0..<16 * 16 * 128]\<rparr>"

definition clamp15 :: "byte \<Rightarrow> byte" where
  "clamp15 v = (if v > 15 then 0 else v)"

definition raise_light ::
  "(nat \<Rightarrow> nat \<Rightarrow> nat \<Rightarrow> bool) \<Rightarrow> (nat \<Rightarrow> nat \<Rightarrow> nat \<Rightarrow> byte) \<Rightarrow> ndarray \<Rightarrow> ndarray" where
  "raise_light inside newlight a =
     tabulate3 (\<lambda>x z y. if inside x z y then max (at3 a x z y) (clamp15 (newlight x z y))
                         else at3 a x z y)"

type_synonym stmt = "lights \<Rightarrow> error + lights"
type_synonym cells = "nat \<Rightarrow> nat \<Rightarrow> nat \<Rightarrow> byte"

definition relax ::
  "string \<Rightarrow> chunk_ref \<Rightarrow> (nat \<Rightarrow> nat \<Rightarrow> nat \<Rightarrow> bool) \<Rightarrow> (lights \<Rightarrow> error + cells) \<Rightarrow> stmt" where
  "relax light dest inside newlight st =
     (case newlight st of
        Inl e \<Rightarrow> Inl e
      | Inr nl \<Rightarrow>
          (case ref_light st light dest of
             Inl e \<Rightarrow> Inl e
           | Inr a \<Rightarrow> Inr (put_light st light dest (raise_light inside nl a))))"

text \<open>
  The two forms of \<open>newlight\<close>. Outward, into a neighbour:
  \<open>(chunkLight[edge] - la[nc.Blocks[edge']]) - 1\<close>. Inward and within the chunk:
  \<open>light[shifted] - chunkLa[here]\<close>, where \<open>chunkLa = la[chunk.Blocks] + 1\<close> is computed
  once per chunk. \<open>src\<close> maps the destination cell to the cell of the source that is read.
\<close>

definition outward ::
  "(byte \<Rightarrow> byte) \<Rightarrow> string \<Rightarrow> int \<times> int \<Rightarrow> chunk_ref \<Rightarrow> (nat \<times> nat \<times> nat \<Rightarrow> nat \<times> nat \<times> nat)
     \<Rightarrow> lights \<Rightarrow> error + cells" where
  "outward tbl light pos nc src st =
     (case ref_light st light (Present pos) of
        Inl e \<Rightarrow> Inl e
      | Inr chunkLight \<Rightarrow>
          (case ref_blocks st nc of
             Inl e \<Rightarrow> Inl e
           | Inr ncBlocks \<Rightarrow>
               Inr (\<lambda>x z y. case src (x, z, y) of (x', z', y') \<Rightarrow>
                      (at3 chunkLight x' z' y' - tbl (at3 ncBlocks x z y)) - 1)))"

definition inward ::
  "cells \<Rightarrow> string \<Rightarrow> chunk_ref \<Rightarrow> (nat \<times> nat \<times> nat \<Rightarrow> nat \<times> nat \<times> nat)
     \<Rightarrow> lights \<Rightarrow> error + cells" where
  "inward chunkLa light from src st =
     (case ref_light st light from of
        Inl e \<Rightarrow> Inl e
      | Inr fromLight \<Rightarrow>
          Inr (\<lambda>x z y. case src (x, z, y) of (x', z', y') \<Rightarrow>
                 at3 fromLight x' z' y' - chunkLa x z y))"

definition reset_zero :: stmt where
  "reset_zero st = Inr (st\<lparr>zero_buffer := (zero_buffer st)\<lparr>data := map (\<lambda>_. 0) (data (zero_buffer st))\<rparr>\<rparr>)"

fun run :: "stmt list \<Rightarrow> stmt" where
  "run [] st = Inr st"
| "run (s # ss) st = (case s st of Inl e \<Rightarrow> Inl e | Inr st' \<Rightarrow> run ss st')"

text \<open>
  The body of the loop over the chunks of the working set (lines 1760-1890), after the
  neighbours have been fetched: the exchanges along x, the reset of the placebo, the
  exchanges along z, the reset, the two vertical exchanges, the reset.
\<close>

definition exchanges ::
  "(byte \<Rightarrow> byte) \<Rightarrow> string \<Rightarrow> int \<times> int \<Rightarrow> cells
     \<Rightarrow> chunk_ref \<Rightarrow> chunk_ref \<Rightarrow> chunk_ref \<Rightarrow> chunk_ref \<Rightarrow> stmt list" where
  "exchanges tbl light pos chunkLa xdec xinc zdec zinc =
     (let self = Present pos in
      [relax light xdec (\<lambda>x z y. x = 15) (outward tbl light pos xdec (\<lambda>(x, z, y). (0, z, y))),
       relax light self (\<lambda>x z y. x < 15) (inward chunkLa light self (\<lambda>(x, z, y). (x + 1, z, y))),
       relax light self (\<lambda>x z y. x = 15) (inward chunkLa light xinc (\<lambda>(x, z, y). (0, z, y))),
       relax light xinc (\<lambda>x z y. x = 0) (outward tbl light pos xinc (\<lambda>(x, z, y). (15, z, y))),
       relax light self (\<lambda>x z y. 1 \<le> x) (inward chunkLa light self (\<lambda>(x, z, y). (x - 1, z, y))),
       relax light self (\<lambda>x z y. x = 0) (inward chunkLa light xdec (\<lambda>(x, z, y). (15, z, y))),
       reset_zero,
       relax light zdec (\<lambda>x z y. z = 15) (outward tbl light pos zdec (\<lambda>(x, z, y). (x, 0, y))),
       relax light self (\<lambda>x z y. z < 15) (inward chunkLa light self (\<lambda>(x, z, y). (x, z + 1, y))),
       relax light self (\<lambda>x z y. z = 15) (inward chunkLa light zinc (\<lambda>(x, z, y). (x, 0, y))),
       relax light zinc (\<lambda>x z y. z = 0) (outward tbl light pos zinc (\<lambda>(x, z, y). (x, 15, y))),
       relax light self (\<lambda>x z y. 1 \<le> z) (inward chunkLa light self (\<lambda>(x, z, y). (x, z - 1, y))),
       relax light self (\<lambda>x z y. z = 0) (inward chunkLa light zdec (\<lambda>(x, z, y). (x, 15, y))),
       reset_zero,
       relax light self (\<lambda>x z y. 1 \<le> y) (inward chunkLa light self (\<lambda>(x, z, y). (x, z, y - 1))),
       relax light self (\<lambda>x z y. y < 127) (inward chunkLa light self (\<lambda>(x, z, y). (x, z, y + 1))),
       reset_zero])"

text \<open>
  Fetching one neighbour: the placebo when the store does not contain the coordinate,
  otherwise \<open>getChunk\<close> and the assertion that its tree is materialised.
\<close>

definition neighbour :: "codec \<Rightarrow> int \<times> int \<Rightarrow> lights \<Rightarrow> error + (chunk_ref \<times> lights)" where
  "neighbour cdc p st =
     (case p of (cx, cz) \<Rightarrow>
        if \<not> containsChunk (lworld st) cx cz then Inr (Zero, st)
        else
          (case getChunk cdc (lworld st) cx cz of
             Inl e \<Rightarrow> Inl e
           | Inr (c, w') \<Rightarrow>
               if root_tag c = None then Inl AssertionError
               else Inr (Present p, st\<lparr>lworld := w'\<rparr>)))"

definition relaxChunk :: "codec \<Rightarrow> (byte \<Rightarrow> byte) \<Rightarrow> string \<Rightarrow> int \<times> int \<Rightarrow> stmt" where
  "relaxChunk cdc tbl light pos st =
     (case pos of (cx, cz) \<Rightarrow>
     (case neighbour cdc (cx - 1, cz) st of Inl e \<Rightarrow> Inl e | Inr (xdec, st) \<Rightarrow>
     (case neighbour cdc (cx + 1, cz) st of Inl e \<Rightarrow> Inl e | Inr (xinc, st) \<Rightarrow>
     (case neighbour cdc (cx, cz - 1) st of Inl e \<Rightarrow> Inl e | Inr (zdec, st) \<Rightarrow>
     (case neighbour cdc (cx, cz + 1) st of Inl e \<Rightarrow> Inl e | Inr (zinc, st) \<Rightarrow>
     (case get_array (lworld st) pos Blocks of Inl e \<Rightarrow> Inl e | Inr blocks \<Rightarrow>
        run (exchanges tbl light pos (\<lambda>x z y. tbl (at3 blocks x z y) + 1) xdec xinc zdec zinc)
          st))))))"

text \<open>One pass over the working set, and \<open>n\<close> passes.\<close>

definition light_pass :: "codec \<Rightarrow> (byte \<Rightarrow> byte) \<Rightarrow> string \<Rightarrow> (int \<times> int) list \<Rightarrow> stmt" where
  "light_pass cdc tbl light dirtyChunks = run (map (relaxChunk cdc tbl light) dirtyChunks)"

fun passes :: "nat \<Rightarrow> stmt \<Rightarrow> stmt" where
  "passes 0 pass st = Inr st"
| "passes (Suc n) pass st = (case pass st of Inl e \<Rightarrow> Inl e | Inr st' \<Rightarrow> passes n pass st')"

text \<open>
  The initialisation of one chunk of the working set (lines 1729-1735): \<open>chunk.load()\<close>,
  \<open>chunk.chunkChanged()\<close>, the assertion on the three flags, and
  \<open>chunk.BlockLight[:] = lightEmission[chunk.Blocks]\<close>, whose right-hand side is evaluated
  first. The two arrays have the same shape in a loaded chunk; otherwise the assignment
  raises ValueError.
\<close>

definition init_chunk :: "filesystem \<Rightarrow> codec \<Rightarrow> materials \<Rightarrow> chunk \<Rightarrow> error + chunk" where
  "init_chunk fs cdc m c =
     (case load fs cdc c of Inl e \<Rightarrow> Inl e | Inr c1 \<Rightarrow>
     (case chunkChanged fs cdc m c1 True of Inl e \<Rightarrow> Inl e | Inr c2 \<Rightarrow>
        if \<not> (dirty c2 \<and> needsCompression c2 \<and> needsLighting c2) then Inl AssertionError
        else
     (case getProp Blocks cdc c2 of Inl e \<Rightarrow> Inl e | Inr (blocks, c3) \<Rightarrow>
     (case getProp BlockLight cdc c3 of Inl e \<Rightarrow> Inl e | Inr (blockLight, c4) \<Rightarrow>
        if shape blockLight \<noteq> shape blocks \<or> length (data blockLight) \<noteq> length (data blocks)
        then Inl ValueError
        else Inr (setProp BlockLight
                    (blockLight\<lparr>data := map (lightEmission m) (data blocks)\<rparr>) c4)))))"

fun init_lights :: "codec \<Rightarrow> materials \<Rightarrow> (int \<times> int) list \<Rightarrow> world \<Rightarrow> error + world" where
  "init_lights cdc m [] w = Inr w"
| "init_lights cdc m (p # ps) w =
     (case presentChunks w p of
        None \<Rightarrow> Inl KeyError
      | Some c \<Rightarrow>
          (case init_chunk (files w) cdc m c of
             Inl e \<Rightarrow> Inl e
           | Inr c' \<Rightarrow> init_lights cdc m ps (w\<lparr>presentChunks := (presentChunks w)(p \<mapsto> c')\<rparr>)))"

text \<open>
  \<open>generateLights\<close> (lines 1711-1899) with an explicit list \<open>dirtyChunks\<close> of coordinates
  (with the default \<open>None\<close> the source takes the chunks whose \<open>needsLighting\<close> is set).
  The coordinates present in the store are kept and sorted (tuples compare
  lexicographically); the chunks are initialised; \<open>la[18] = 0\<close>; then come the passes for
  \<open>BlockLight\<close> and the passes for \<open>SkyLight\<close>, 16 each in the source. \<open>lights_after\<close> is
  the state reached after the initialisation, \<open>nb\<close> passes of the first loop and \<open>ns\<close>
  passes of the second; \<open>generateLights\<close> runs 16 and 16 and then clears \<open>needsLighting\<close>.
\<close>

definition working_set :: "world \<Rightarrow> (int \<times> int) list \<Rightarrow> (int \<times> int) list" where
  "working_set w dirtyChunks = sort (filter (\<lambda>p. presentChunks w p \<noteq> None) dirtyChunks)"

definition lights_after ::
  "codec \<Rightarrow> materials \<Rightarrow> world \<Rightarrow> (int \<times> int) list \<Rightarrow> nat \<Rightarrow> nat \<Rightarrow> error + lights" where
  "lights_after cdc m w dirtyChunks nb ns =
     (let ds = working_set w dirtyChunks in
      case init_lights cdc m ds w of
        Inl e \<Rightarrow> Inl e
      | Inr w1 \<Rightarrow>
          let tbl = (lightAbsorption m)(18 := 0);
              st = \<lparr>lworld = w1, zero_buffer = zeros [16, 16, 128]\<rparr>
          in case passes nb (light_pass cdc tbl BlockLight ds) st of
               Inl e \<Rightarrow> Inl e
             | Inr st1 \<Rightarrow> passes ns (light_pass cdc tbl SkyLight ds) st1)"

fun clear_lighting :: "(int \<times> int) list \<Rightarrow> world \<Rightarrow> world" where
  "clear_lighting [] w = w"
| "clear_lighting (p # ps) w =
     clear_lighting ps
       (w\<lparr>presentChunks := (presentChunks w)
            (p := map_option (\<lambda>c. c\<lparr>needsLighting := False\<rparr>) (presentChunks w p))\<rparr>)"

definition generateLights ::
  "codec \<Rightarrow> materials \<Rightarrow> world \<Rightarrow> (int \<times> int) list \<Rightarrow> error + world" where
  "generateLights cdc m w dirtyChunks =
     (case lights_after cdc m w dirtyChunks 16 16 of
        Inl e \<Rightarrow> Inl e
      | Inr st \<Rightarrow> Inr (clear_lighting (working_set w dirtyChunks) (lworld st)))"

text \<open>
  The property of claim C3: a light array whose cells are all at least 0 and at most 15,
  and a chunk of the store whose array under a key is such. \<open>emission_ok\<close> describes a
  material table whose light emissions are light values.
\<close>

definition light_ok :: "ndarray \<Rightarrow> bool" where
  "light_ok a = (unpacked_shape a \<and> (\<forall>v \<in> set (data a). 0 \<le> v \<and> v \<le> 15))"

definition chunk_light_ok :: "world \<Rightarrow> int \<times> int \<Rightarrow> string \<Rightarrow> bool" where
  "chunk_light_ok w p key =
     (case presentChunks w p of
        None \<Rightarrow> False
      | Some c \<Rightarrow> (case array_of c key of None \<Rightarrow> False | Some a \<Rightarrow> light_ok a))"

definition emission_ok :: "materials \<Rightarrow> bool" where
  "emission_ok m = (\<forall>b. lightEmission m b \<le> 15)"

text \<open>
  A chunk object that loads: \<open>load\<close> (from its tree, its blob or its file) succeeds and
  leaves a loaded chunk. \<open>generateLights\<close> loads the chunks of the working set itself
  (\<open>chunk.load()\<close>) and those of the four neighbouring coordinates through \<open>getChunk\<close>.
  A chunk is ready once it is loaded and has its blob cached: \<open>load\<close> then returns at once.
\<close>

definition loadable :: "codec \<Rightarrow> filesystem \<Rightarrow> chunk \<Rightarrow> bool" where
  "loadable cdc fs c = (case load fs cdc c of Inl e \<Rightarrow> False | Inr c1 \<Rightarrow> loaded c1)"

definition ready :: "chunk \<Rightarrow> bool" where
  "ready c = (loaded c \<and> compressedTag c \<noteq> None)"

definition neighbours :: "int \<times> int \<Rightarrow> (int \<times> int) list" where
  "neighbours p = (case p of (cx, cz) \<Rightarrow> [(cx - 1, cz), (cx + 1, cz), (cx, cz - 1), (cx, cz + 1)])"

text \<open>
  The invariant of the relaxation, for the coordinates \<open>Z\<close> whose chunks load, the
  coordinates \<open>R\<close> whose chunks are ready, and the working set \<open>D\<close>.
\<close>

definition relax_inv ::
  "codec \<Rightarrow> (int \<times> int) set \<Rightarrow> (int \<times> int) set \<Rightarrow> (int \<times> int) set \<Rightarrow> lights \<Rightarrow> bool" where
  "relax_inv cdc Z R D st =
     (unpacked_shape (zero_buffer st) \<and> D \<subseteq> R
      \<and> (\<forall>q \<in> Z. \<forall>c. presentChunks (lworld st) q = Some c
             \<longrightarrow> loadable cdc (files (lworld st)) c)
      \<and> (\<forall>p \<in> R. \<exists>c. presentChunks (lworld st) p = Some c \<and> ready c)
      \<and> (\<forall>p \<in> D. chunk_light_ok (lworld st) p BlockLight
                   \<and> chunk_light_ok (lworld st) p SkyLight))"

definition valid_ref :: "(int \<times> int) set \<Rightarrow> chunk_ref \<Rightarrow> bool" where
  "valid_ref R r = (case r of Zero \<Rightarrow> True | Present p \<Rightarrow> p \<in> R)"

definition preserves ::
  "codec \<Rightarrow> (int \<times> int) set \<Rightarrow> (int \<times> int) set \<Rightarrow> (int \<times> int) set \<Rightarrow> stmt \<Rightarrow> bool" where
  "preserves cdc Z R D s =
     (\<forall>st. relax_inv cdc Z R D st
        \<longrightarrow> (case s st of Inl e \<Rightarrow> False | Inr st' \<Rightarrow> relax_inv cdc Z R D st'))"

text \<open>
  For the statement of what \<open>generateHeightMap\<close> computes: whether the block at a cell
  absorbs light, and the column of the index list that \<open>nonzero\<close> returns.
\<close>

definition absorbs :: "materials \<Rightarrow> ndarray \<Rightarrow> nat \<Rightarrow> nat \<Rightarrow> nat \<Rightarrow> bool" where
  "absorbs m blocks x z y = (lightAbsorption m (at3 blocks x z y) \<noteq> 0)"

definition column_of :: "(nat \<times> nat \<times> nat) list \<Rightarrow> nat \<Rightarrow> nat \<Rightarrow> nat list" where
  "column_of L x z = map (\<lambda>(x', z', y). y) (filter (\<lambda>(x', z', y). x' = x \<and> z' = z) L)"

section \<open>Properties of BoundingBox\<close>

lemmas box_defs = size_nonneg_def getWidth_def getHeight_def getLength_def
  getMinx_def getMiny_def getMinz_def getMaxx_def getMaxy_def getMaxz_def
  setMinx_def setMiny_def setMinz_def setMaxx_def setMaxy_def setMaxz_def

text \<open>
  Claim C6 says that after any single min-edge or max-edge setter every size component of
  a box with non-negative sizes is still non-negative. The max-edge setters guard against
  a negative size (\<open>if x < self.origin[0]: x = self.origin[0]\<close>); the min-edge setters
  subtract the displacement from the size and have no such guard. Evaluated on the box
  with origin (0,0,0) and size (1,1,1), whose sizes are non-negative: after \<open>setMinx 5\<close>
  its width is \<open>-4\<close>.
\<close>

theorem setMinx_negative_size:
  "size_nonneg \<lparr>origin = (0, 0, 0), bsize = (1, 1, 1)\<rparr>
   \<and> \<not> size_nonneg (setMinx \<lparr>origin = (0, 0, 0), bsize = (1, 1, 1)\<rparr> 5)
   \<and> getWidth (setMinx \<lparr>origin = (0, 0, 0), bsize = (1, 1, 1)\<rparr> 5) = - 4"
  by (simp add: box_defs)

text \<open>
  What the setters do, for every box with non-negative sizes and every integer \<open>v\<close>: a
  max-edge setter leaves every size component non-negative (the new maximum edge is
  \<open>max v min\<close>) and leaves the origin unchanged; a min-edge setter sets the minimum edge to
  \<open>v\<close>, leaves the corresponding maximum edge unchanged, and leaves the sizes non-negative
  exactly when \<open>v\<close> does not exceed that maximum edge.
\<close>

lemma setters_size_and_edges:
  assumes "size_nonneg b"
  shows "size_nonneg (setMaxx b v) \<and> size_nonneg (setMaxy b v) \<and> size_nonneg (setMaxz b v)
    \<and> getMaxx (setMaxx b v) = max v (getMinx b)
    \<and> getMaxy (setMaxy b v) = max v (getMiny b)
    \<and> getMaxz (setMaxz b v) = max v (getMinz b)
    \<and> origin (setMaxx b v) = origin b \<and> origin (setMaxy b v) = origin b
    \<and> origin (setMaxz b v) = origin b
    \<and> getMaxx (setMinx b v) = getMaxx b \<and> getMaxy (setMiny b v) = getMaxy b
    \<and> getMaxz (setMinz b v) = getMaxz b
    \<and> getMinx (setMinx b v) = v \<and> getMiny (setMiny b v) = v \<and> getMinz (setMinz b v) = v
    \<and> (size_nonneg (setMinx b v) \<longleftrightarrow> v \<le> getMaxx b)
    \<and> (size_nonneg (setMiny b v) \<longleftrightarrow> v \<le> getMaxy b)
    \<and> (size_nonneg (setMinz b v) \<longleftrightarrow> v \<le> getMaxz b)"
  using assms by (auto simp: box_defs Let_def split: prod.splits)

section \<open>Properties of the directory hash\<close>

lemma dirhash_mod: "dirhash (n mod 64) = dirhash n"
  by (simp add: dirhash_def)

lemma dirhash_residues:
  "\<forall>r \<in> set [0..63]. decbase36 (dirhash r) = Inr r
     \<and> (r < 36 \<longrightarrow> dirhash r = [base36alphabet ! nat r])
     \<and> (36 \<le> r \<longrightarrow> dirhash r = [CHR ''1'', base36alphabet ! nat (r - 36)])"
  by code_simp

lemma mod64_upto: "(n::int) mod 64 \<in> set [0..63]"
  by simp

text \<open>
  Claim C8: \<open>dirhash\<close> maps the 64 residues to pairwise distinct labels (injective on
  \<open>0..63\<close>), a single digit of the alphabet for the residues below 36 and the digit of
  \<open>n mod 64 - 36\<close> prefixed by "1" for the residues from 36 on, and \<open>decbase36\<close> of the
  label of any integer \<open>n\<close> is \<open>n mod 64\<close>.
\<close>

theorem dirhash_decbase36:
  "(\<forall>n. decbase36 (dirhash n) = Inr (n mod 64))
   \<and> inj_on dirhash {0..63}
   \<and> (\<forall>n. n mod 64 < 36 \<longrightarrow> dirhash n = [base36alphabet ! nat (n mod 64)])
   \<and> (\<forall>n. 36 \<le> n mod 64 \<longrightarrow> dirhash n = [CHR ''1'', base36alphabet ! nat (n mod 64 - 36)])"
proof -
  have inv: "decbase36 (dirhash n) = Inr (n mod 64)" for n
    using dirhash_residues mod64_upto [of n] dirhash_mod [of n] by (metis (no_types, lifting))
  have lo: "n mod 64 < 36 \<Longrightarrow> dirhash n = [base36alphabet ! nat (n mod 64)]" for n
    using dirhash_residues mod64_upto [of n] dirhash_mod [of n] by (metis (no_types, lifting))
  have hi: "36 \<le> n mod 64 \<Longrightarrow> dirhash n = [CHR ''1'', base36alphabet ! nat (n mod 64 - 36)]" for n
    using dirhash_residues mod64_upto [of n] dirhash_mod [of n] by (metis (no_types, lifting))
  have "inj_on dirhash {0..63}"
  proof (rule inj_onI)
    fix a b :: int
    assume a: "a \<in> {0..63}" and b: "b \<in> {0..63}" and e: "dirhash a = dirhash b"
    have "Inr (a mod 64) = (Inr (b mod 64) :: error + int)"
      using inv [of a] inv [of b] e by simp
    with a b show "a = b" by simp
  qed
  with inv lo hi show ?thesis by blast
qed

theorem dirhash_decbase36_witness:
  "dirhash 100 = ''10'' \<and> decbase36 (dirhash 100) = Inr 36 \<and> dirhash 7 = ''7''"
proof -
  have a: "decbase36 (dirhash 100) = Inr (100 mod 64)"
    using dirhash_decbase36 by blast
  have "(36::int) \<le> 100 mod 64" by simp
  then have b: "dirhash 100 = [CHR ''1'', base36alphabet ! nat (100 mod 64 - 36)]"
    using dirhash_decbase36 by blast
  have "(7::int) mod 64 < 36" by simp
  then have c: "dirhash 7 = [base36alphabet ! nat (7 mod 64)]"
    using dirhash_decbase36 by blast
  from a b c show ?thesis by (simp add: base36alphabet_def)
qed

section \<open>Nibble packing\<close>

lemma pairs_concat: "pairs (concat (map (\<lambda>(lo, hi). [lo, hi]) ps)) = ps"
  by (induction ps) auto

lemma fifteen_mask: "(0xf :: byte) = mask 4"
  by (simp add: mask_eq_exp_minus_1)

lemma nibble_join: "push_bit 4 (drop_bit 4 (b :: byte)) OR (b AND 0xf) = b"
  unfolding fifteen_mask
  by (rule bit_eqI) (auto simp add: bit_or_iff bit_and_iff bit_push_bit_iff bit_drop_bit_eq bit_mask_iff)

lemma low_nibble_le: "(b :: byte) AND 0xf \<le> 15"
  by (rule word_and_le1)

lemma high_nibble_le: "drop_bit 4 (b :: byte) \<le> 15"
proof -
  have "unat b < 256"
    using unsigned_less [of b] by simp
  then have "unat b div 16 \<le> 15"
    by arith
  moreover have "unat (drop_bit 4 b) = unat b div 16"
    by (simp add: unat_drop_bit_eq drop_bit_nat_def)
  ultimately show ?thesis
    by (simp add: word_le_nat_alt)
qed

lemma length_nibbles: "length (nibbles xs) = 2 * length xs"
  by (induction xs) (auto simp: nibbles_def)

lemma nth_nibbles:
  "i < length xs \<Longrightarrow> nibbles xs ! (2 * i) = xs ! i AND 0xf
     \<and> nibbles xs ! (2 * i + 1) = drop_bit 4 (xs ! i)"
proof (induction xs arbitrary: i)
  case Nil
  then show ?case by simp
next
  case (Cons b xs)
  show ?case
  proof (cases i)
    case 0
    then show ?thesis by (simp add: nibbles_def)
  next
    case (Suc j)
    with Cons.prems have "j < length xs" by simp
    from Cons.IH [OF this] Suc show ?thesis by (simp add: nibbles_def)
  qed
qed

lemma pairs_nibbles:
  "map (\<lambda>(lo, hi). push_bit 4 hi OR lo) (pairs (nibbles xs)) = xs"
  by (induction xs) (auto simp: nibbles_def nibble_join)

lemma unpackArray_packed:
  assumes "packed_shape x"
  shows "unpackArray x = Inr \<lparr>shape = [16, 16, 128], data = nibbles (data x)\<rparr>"
proof -
  have e: "concat (map (\<lambda>(lo, hi). [lo, hi])
            (map (\<lambda>(lo, hi). (lo, drop_bit 4 hi))
              (map (\<lambda>(lo, hi). (hi AND 0xf, hi)) (map (\<lambda>b. (0 :: byte, b)) xs)))) = nibbles xs" for xs
    by (induction xs) (auto simp: nibbles_def)
  from assms have l: "length (nibbles (data x)) = 16 * 16 * 128"
    by (simp add: length_nibbles packed_shape_def)
  from assms show ?thesis
    unfolding unpackArray_def Let_def e using l by (simp add: packed_shape_def)
qed

lemma packArray_nibbles:
  assumes "packed_shape x"
  shows "packArray \<lparr>shape = [16, 16, 128], data = nibbles (data x)\<rparr> = Inr x"
proof -
  have e: "map snd (map (\<lambda>(lo, hi). (lo, hi OR lo)) (map (\<lambda>(lo, hi). (lo, push_bit 4 hi)) ps))
      = map (\<lambda>(lo, hi). push_bit 4 hi OR lo) ps" for ps :: "(byte \<times> byte) list"
    by (induction ps) auto
  from assms have l: "length (nibbles (data x)) = 16 * 16 * 64 * 2"
    by (simp add: length_nibbles packed_shape_def)
  from assms show ?thesis
    unfolding packArray_def Let_def e using l
    by (cases x) (simp add: packed_shape_def pairs_nibbles)
qed

lemma at3_nibbles:
  assumes "packed_shape x" and "i < 16" and "j < 16" and "k < 64"
  shows "at3 \<lparr>shape = [16, 16, 128], data = nibbles (data x)\<rparr> i j (2 * k) = at3 x i j k AND 0xf"
    and "at3 \<lparr>shape = [16, 16, 128], data = nibbles (data x)\<rparr> i j (2 * k + 1) = drop_bit 4 (at3 x i j k)"
proof -
  define n where "n = (i * 16 + j) * 64 + k"
  have b: "n < length (data x)"
    using assms by (simp add: packed_shape_def n_def)
  have i1: "(i * 16 + j) * 128 + 2 * k = 2 * n"
    and i2: "(i * 16 + j) * 128 + (2 * k + 1) = 2 * n + 1"
    by (simp_all add: n_def)
  have x: "at3 x i j k = data x ! n"
    using assms(1) by (simp add: at3_def packed_shape_def n_def)
  have u: "at3 \<lparr>shape = [16, 16, 128], data = d\<rparr> i j y = d ! ((i * 16 + j) * 128 + y)" for d y
    by (simp add: at3_def)
  show "at3 \<lparr>shape = [16, 16, 128], data = nibbles (data x)\<rparr> i j (2 * k) = at3 x i j k AND 0xf"
    unfolding u x i1 using nth_nibbles [OF b] by simp
  show "at3 \<lparr>shape = [16, 16, 128], data = nibbles (data x)\<rparr> i j (2 * k + 1) = drop_bit 4 (at3 x i j k)"
    unfolding u x i2 using nth_nibbles [OF b] by simp
qed


lemma key_neq [simp]:
  "Blocks \<noteq> Data" "Blocks \<noteq> BlockLight" "Blocks \<noteq> SkyLight" "Blocks \<noteq> HeightMap"
  "Data \<noteq> BlockLight" "Data \<noteq> SkyLight" "Data \<noteq> HeightMap"
  "BlockLight \<noteq> SkyLight" "BlockLight \<noteq> HeightMap" "SkyLight \<noteq> HeightMap"
  "Data \<noteq> Blocks" "BlockLight \<noteq> Blocks" "SkyLight \<noteq> Blocks" "HeightMap \<noteq> Blocks"
  "BlockLight \<noteq> Data" "SkyLight \<noteq> Data" "HeightMap \<noteq> Data"
  "SkyLight \<noteq> BlockLight" "HeightMap \<noteq> BlockLight" "HeightMap \<noteq> SkyLight"
  by (simp_all add: Blocks_def Data_def BlockLight_def SkyLight_def HeightMap_def)

lemma nibbleKeys_distinct:
  "SkyLight \<noteq> BlockLight" "SkyLight \<noteq> Data" "BlockLight \<noteq> Data"
  by simp_all

lemma Data_str: "''Data'' = Data"
  by (simp add: Data_def)

lemma shaped_tag_eq:
  "shapeChunkData created_tag = (
     [BlockLight \<mapsto> zeros [16, 16, 64],
      Blocks \<mapsto> zeros [16, 16, 128],
      Data \<mapsto> zeros [16, 16, 64],
      SkyLight \<mapsto> zeros [16, 16, 64],
      HeightMap \<mapsto> zeros [16, 16]], None)"
  unfolding shapeChunkData_def created_tag_def Data_str
  by (simp add: set_shape_def zeros_def fun_upd_twist)

lemma packed_shape_zeros: "packed_shape (zeros [16, 16, 64])"
  by (simp add: packed_shape_def zeros_def)

lemma shaped_tag_keys:
  "shaped_tag SkyLight = Some (zeros [16, 16, 64])"
  "shaped_tag BlockLight = Some (zeros [16, 16, 64])"
  "shaped_tag Data = Some (zeros [16, 16, 64])"
  "shaped_tag Blocks = Some (zeros [16, 16, 128])"
  "shaped_tag HeightMap = Some (zeros [16, 16])"
  by (simp_all add: shaped_tag_def shaped_tag_eq)

lemma map_keys_unpack:
  assumes "t SkyLight = Some x1" "t BlockLight = Some x2" "t Data = Some x3"
    and "packed_shape x1" "packed_shape x2" "packed_shape x3"
  shows "map_keys unpackArray nibbleKeys t
    = Inr (t(SkyLight \<mapsto> unpacked_of x1, BlockLight \<mapsto> unpacked_of x2, Data \<mapsto> unpacked_of x3))"
  using assms nibbleKeys_distinct
  by (simp add: nibbleKeys_def unpackArray_packed unpacked_of_def)

lemma map_keys_pack:
  assumes "t SkyLight = Some x1" "t BlockLight = Some x2" "t Data = Some x3"
    and "packed_shape x1" "packed_shape x2" "packed_shape x3"
  shows "map_keys packArray nibbleKeys
      (t(SkyLight \<mapsto> unpacked_of x1, BlockLight \<mapsto> unpacked_of x2, Data \<mapsto> unpacked_of x3))
    = Inr t"
proof -
  have "t(SkyLight \<mapsto> unpacked_of x1, BlockLight \<mapsto> unpacked_of x2, Data \<mapsto> unpacked_of x3,
          SkyLight \<mapsto> x1, BlockLight \<mapsto> x2, Data \<mapsto> x3) = t"
    using assms(1-3) nibbleKeys_distinct by (auto simp: fun_eq_iff)
  then show ?thesis
    using assms nibbleKeys_distinct
    by (simp add: nibbleKeys_def packArray_nibbles unpacked_of_def)
qed

text \<open>
  Claim C2: on a chunk whose three nibble arrays (SkyLight, BlockLight, Data) have the
  packed shape (16,16,64), \<open>unpackChunkData\<close> succeeds and leaves arrays of shape
  (16,16,128) in which, in every column \<open>(i, j)\<close> and for every \<open>k < 64\<close>, cell \<open>2k\<close> is
  the low nibble and cell \<open>2k+1\<close> the high nibble of packed byte \<open>k\<close>; the other entries
  of the tag are untouched; and \<open>packChunkData\<close> applied to the result gives back the
  chunk with exactly the packed arrays it started from.
\<close>

theorem unpack_pack_roundtrip:
  assumes "root_tag c = Some t"
    and "\<forall>key \<in> set nibbleKeys. \<exists>x. t key = Some x \<and> packed_shape x"
  shows "\<exists>c' t'. unpackChunkData c = Inr c' \<and> root_tag c' = Some t'
     \<and> (\<forall>key \<in> set nibbleKeys. \<exists>x u. t key = Some x \<and> t' key = Some u \<and> unpacked_shape u
          \<and> (\<forall>i<16. \<forall>j<16. \<forall>k<64.
                 at3 u i j (2 * k) = at3 x i j k AND 0xf
               \<and> at3 u i j (2 * k + 1) = drop_bit 4 (at3 x i j k)))
     \<and> (\<forall>key. key \<notin> set nibbleKeys \<longrightarrow> t' key = t key)
     \<and> packChunkData c' = Inr c"
proof -
  from assms(2) obtain x1 x2 x3 where
    x: "t SkyLight = Some x1" "t BlockLight = Some x2" "t Data = Some x3"
    and p: "packed_shape x1" "packed_shape x2" "packed_shape x3"
    by (auto simp: nibbleKeys_def)
  define t' where
    "t' = t(SkyLight \<mapsto> unpacked_of x1, BlockLight \<mapsto> unpacked_of x2, Data \<mapsto> unpacked_of x3)"
  define c' where "c' = c\<lparr>root_tag := Some t'\<rparr>"
  have u: "unpackChunkData c = Inr c'"
    using assms(1) map_keys_unpack [OF x p]
    by (simp add: unpackChunkData_def c'_def t'_def)
  have r: "root_tag c' = Some t'"
    by (simp add: c'_def)
  have cell: "unpacked_shape (unpacked_of x) \<and> (\<forall>i<16. \<forall>j<16. \<forall>k<64.
                 at3 (unpacked_of x) i j (2 * k) = at3 x i j k AND 0xf
               \<and> at3 (unpacked_of x) i j (2 * k + 1) = drop_bit 4 (at3 x i j k))"
    if "packed_shape x" for x
    using that at3_nibbles [OF that]
    by (simp add: unpacked_of_def unpacked_shape_def length_nibbles packed_shape_def)
  have k: "\<forall>key \<in> set nibbleKeys. \<exists>x u. t key = Some x \<and> t' key = Some u \<and> unpacked_shape u
          \<and> (\<forall>i<16. \<forall>j<16. \<forall>k<64.
                 at3 u i j (2 * k) = at3 x i j k AND 0xf
               \<and> at3 u i j (2 * k + 1) = drop_bit 4 (at3 x i j k))"
    using x cell [OF p(1)] cell [OF p(2)] cell [OF p(3)] nibbleKeys_distinct
    by (simp add: nibbleKeys_def t'_def)
  have o: "\<forall>key. key \<notin> set nibbleKeys \<longrightarrow> t' key = t key"
    by (simp add: nibbleKeys_def t'_def)
  have "packChunkData c' = Inr (c'\<lparr>root_tag := Some t\<rparr>)"
    using map_keys_pack [OF x p] by (simp add: packChunkData_def c'_def t'_def)
  moreover have "c'\<lparr>root_tag := Some t\<rparr> = c"
    using assms(1) by (simp add: c'_def)
  ultimately have b: "packChunkData c' = Inr c"
    by simp
  from u r k o b show ?thesis
    by blast
qed

theorem unpack_pack_roundtrip_witness:
  "\<exists>c'. unpackChunkData (new_chunk (0, 0) ''c.0.0.dat'' (Some shaped_tag)) = Inr c'
     \<and> packChunkData c' = Inr (new_chunk (0, 0) ''c.0.0.dat'' (Some shaped_tag))"
proof -
  have r: "root_tag (new_chunk (0, 0) ''c.0.0.dat'' (Some shaped_tag)) = Some shaped_tag"
    by (simp add: new_chunk_def)
  have k: "\<forall>key \<in> set nibbleKeys. \<exists>x. shaped_tag key = Some x \<and> packed_shape x"
    by (simp add: nibbleKeys_def shaped_tag_keys packed_shape_zeros)
  from unpack_pack_roundtrip [OF r k] show ?thesis
    by blast
qed

section \<open>The chunk store\<close>

lemma unpackArray_error:
  "unpackArray a = Inl e \<Longrightarrow> e = IndexError \<or> e = AssertionError \<or> e = ValueError"
  by (auto simp: unpackArray_def Let_def split: if_splits)

lemma map_keys_error:
  "map_keys f keys t = Inl e \<Longrightarrow> e = KeyError \<or> (\<exists>a. f a = Inl e)"
  by (induction keys arbitrary: t) (auto split: option.splits sum.splits)

lemma shape_all_error:
  "shape_all l t = (t', Some e) \<Longrightarrow> e = KeyError \<or> e = ValueError"
  by (induction l arbitrary: t)
     (auto simp: set_shape_def split: option.splits sum.splits if_splits)

lemma shapeChunkData_error:
  "shapeChunkData t = (t', Some e) \<Longrightarrow> e = KeyError \<or> e = ValueError"
  unfolding shapeChunkData_def by (rule shape_all_error)

lemma unpackChunkData_error:
  "unpackChunkData c = Inl e \<Longrightarrow>
     e = TypeError \<or> e = IndexError \<or> e = AssertionError \<or> e = ValueError \<or> e = KeyError"
  by (auto simp: unpackChunkData_def split: option.splits sum.splits
      dest!: map_keys_error unpackArray_error)

lemma decompress_error:
  "decompress cdc c = Inl e \<Longrightarrow>
     e = TypeError \<or> e = IndexError \<or> e = AssertionError \<or> e = ValueError \<or> e = KeyError"
  by (auto simp: decompress_def Let_def
      split: option.splits sum.splits if_splits prod.splits
      dest!: unpackChunkData_error shapeChunkData_error)

lemma load_error:
  "load fs cdc c = Inl e \<Longrightarrow>
     e = IOError \<or> e = TypeError \<or> e = IndexError \<or> e = AssertionError
       \<or> e = ValueError \<or> e = KeyError"
  by (auto simp: load_def split: option.splits sum.splits if_splits dest!: decompress_error)

lemma getChunk_never_malformed: "getChunk cdc w cx cz \<noteq> Inl ChunkMalformed"
  by (auto simp: getChunk_def Let_def split: option.splits sum.splits dest!: load_error)

lemma getChunk_keeps_key:
  "getChunk cdc w cx cz = Inr (c, w') \<Longrightarrow> presentChunks w' (cx, cz) = Some c"
  by (auto simp: getChunk_def Let_def split: option.splits sum.splits)

lemma unpacked_shape_zeros: "unpacked_shape (zeros [16, 16, 128])"
  by (simp add: unpacked_shape_def zeros_def)

lemma unpacked_shape_unpacked_of: "packed_shape x \<Longrightarrow> unpacked_shape (unpacked_of x)"
  by (simp add: unpacked_shape_def unpacked_of_def packed_shape_def length_nibbles)

lemma decompress_fresh:
  assumes "root_tag c = None" and "compressedTag c = Some b"
  shows "\<exists>t. decompress fresh_codec c = Inr (c\<lparr>root_tag := Some t\<rparr>) \<and> wf_tag t"
proof -
  define T0 :: tag where "T0 =
     [BlockLight \<mapsto> zeros [16, 16, 64], Blocks \<mapsto> zeros [16, 16, 128],
      Data \<mapsto> zeros [16, 16, 64], SkyLight \<mapsto> zeros [16, 16, 64],
      HeightMap \<mapsto> zeros [16, 16]]"
  define T1 where "T1 = T0(SkyLight \<mapsto> unpacked_of (zeros [16, 16, 64]),
      BlockLight \<mapsto> unpacked_of (zeros [16, 16, 64]), Data \<mapsto> unpacked_of (zeros [16, 16, 64]))"
  have k: "T0 SkyLight = Some (zeros [16, 16, 64])" "T0 BlockLight = Some (zeros [16, 16, 64])"
      "T0 Data = Some (zeros [16, 16, 64])"
    by (simp_all add: T0_def)
  have u: "map_keys unpackArray nibbleKeys T0 = Inr T1"
    unfolding T1_def
    by (rule map_keys_unpack [OF k packed_shape_zeros packed_shape_zeros packed_shape_zeros])
  have s: "shapeChunkData created_tag = (T0, None)"
    unfolding T0_def by (rule shaped_tag_eq)
  have d: "decompress fresh_codec c = Inr (c\<lparr>root_tag := Some T1\<rparr>)"
    using assms u by (simp add: decompress_def fresh_codec_def s unpackChunkData_def)
  have "wf_tag T1"
    using unpacked_shape_zeros unpacked_shape_unpacked_of [OF packed_shape_zeros]
    by (simp add: wf_tag_def T1_def T0_def) (simp add: zeros_def)
  with d show ?thesis by blast
qed

text \<open>
  What \<open>deleteChunk\<close> does: on a coordinate absent from the store it returns with the
  world unchanged; on a present coordinate whose backing file exists it removes the file
  and the store entry; on a present coordinate whose backing file does not exist
  \<open>os.remove\<close> raises OSError before the entry is deleted; and whenever it returns, the
  coordinate is no longer a key of the store and \<open>getChunk\<close> on it fails with
  ChunkNotPresent.
\<close>

lemma deleteChunk_cases:
  "(presentChunks w (cx, cz) = None \<longrightarrow> deleteChunk w cx cz = Inr w)
   \<and> (\<forall>c. presentChunks w (cx, cz) = Some c \<and> filename c \<in> dom (files w) \<longrightarrow>
         deleteChunk w cx cz
           = Inr (w\<lparr>files := (files w)(filename c := None),
                    presentChunks := (presentChunks w)((cx, cz) := None)\<rparr>))
   \<and> (\<forall>c. presentChunks w (cx, cz) = Some c \<and> filename c \<notin> dom (files w) \<longrightarrow>
         deleteChunk w cx cz = Inl OSError)
   \<and> (\<forall>w'. deleteChunk w cx cz = Inr w' \<longrightarrow>
         (cx, cz) \<notin> dom (presentChunks w') \<and> getChunk cdc w' cx cz = Inl ChunkNotPresent)"
  by (auto simp: deleteChunk_def chunk_remove_def getChunk_def split: option.splits if_splits)

text \<open>
  \<open>create\<close> on the object the constructor has built: the tree is shaped, unpacked, packed
  again and serialised into the blob, and no file is written, because \<open>dirty\<close> is False
  when \<open>save\<close> tests it.
\<close>

lemma create_writes_no_file:
  "create fs cdc (new_chunk pos name None)
     = Inr ((new_chunk pos name None)\<lparr>compressedTag := Some (gzip_save cdc shaped_tag)\<rparr>, fs)"
proof -
  define c where "c = new_chunk pos name None"
  define T1 where "T1 = shaped_tag(SkyLight \<mapsto> unpacked_of (zeros [16, 16, 64]),
      BlockLight \<mapsto> unpacked_of (zeros [16, 16, 64]), Data \<mapsto> unpacked_of (zeros [16, 16, 64]))"
  have s: "shapeChunkData created_tag = (shaped_tag, None)"
    by (simp add: shaped_tag_def shaped_tag_eq)
  have u: "map_keys unpackArray nibbleKeys shaped_tag = Inr T1"
    unfolding T1_def
    by (rule map_keys_unpack [OF shaped_tag_keys(1-3)
          packed_shape_zeros packed_shape_zeros packed_shape_zeros])
  have k: "map_keys packArray nibbleKeys T1 = Inr shaped_tag"
    unfolding T1_def
    by (rule map_keys_pack [OF shaped_tag_keys(1-3)
          packed_shape_zeros packed_shape_zeros packed_shape_zeros])
  have f: "compressedTag c = None" "dirty c = False" "needsCompression c = False"
    by (simp_all add: c_def new_chunk_def)
  have cm: "compress cdc (c\<lparr>root_tag := Some T1\<rparr>)
      = Inr (c\<lparr>root_tag := None, compressedTag := Some (gzip_save cdc shaped_tag),
              needsCompression := False\<rparr>)"
    using k f by (simp add: compress_def packChunkData_def)
  have sv: "save fs cdc (c\<lparr>root_tag := Some T1\<rparr>)
      = Inr (c\<lparr>root_tag := None, compressedTag := Some (gzip_save cdc shaped_tag),
              needsCompression := False\<rparr>, fs)"
    using f by (simp add: save_def cm)
  have e: "c\<lparr>root_tag := None, compressedTag := Some (gzip_save cdc shaped_tag),
              needsCompression := False\<rparr>
      = c\<lparr>compressedTag := Some (gzip_save cdc shaped_tag)\<rparr>"
    by (simp add: c_def new_chunk_def)
  show ?thesis
    unfolding c_def [symmetric] using u sv e
    by (simp add: create_def s unpackChunkData_def)
qed

lemma chunkFilename_origin: "chunkFilename ''world'' 0 0 = ''world/0/0/c.0.0.dat''"
  by (simp add: chunkFilename_def path_join_def dirhash_def base36_def base36alphabet_def)

text \<open>
  Claim C9 says that \<open>deleteChunk\<close> on a present coordinate removes the backing file and
  the store entry, and that \<open>getChunk\<close> then fails with ChunkNotPresent. Evaluated on the
  store that \<open>createChunk(0, 0)\<close> leaves from an empty world: \<open>createChunk\<close> puts the chunk
  (its blob only) in the store and writes no file; \<open>deleteChunk(0, 0)\<close> then raises
  OSError from \<open>os.remove\<close> before it deletes the entry, so nothing is removed, and
  \<open>getChunk(0, 0)\<close> on that store still returns the chunk.
\<close>

theorem createChunk_then_deleteChunk:
  "createChunk fresh_codec empty_world 0 0 = Inr (one_chunk_world created_chunk Map.empty)
   \<and> deleteChunk (one_chunk_world created_chunk Map.empty) 0 0 = Inl OSError
   \<and> (\<exists>c w'. getChunk fresh_codec (one_chunk_world created_chunk Map.empty) 0 0 = Inr (c, w'))"
proof -
  have a: "createChunk fresh_codec empty_world 0 0 = Inr (one_chunk_world created_chunk Map.empty)"
    by (simp add: createChunk_def InfdevChunk_def empty_world_def chunkFilename_origin
        create_writes_no_file fresh_codec_def one_chunk_world_def created_chunk_def)
  have b: "deleteChunk (one_chunk_world created_chunk Map.empty) 0 0 = Inl OSError"
    by (simp add: deleteChunk_def chunk_remove_def one_chunk_world_def)
  have r: "root_tag created_chunk = None" "compressedTag created_chunk = Some [1, 2]"
    by (simp_all add: created_chunk_def new_chunk_def)
  obtain t where "decompress fresh_codec created_chunk = Inr (created_chunk\<lparr>root_tag := Some t\<rparr>)"
    using decompress_fresh [OF r] by blast
  then have "\<exists>c w'. getChunk fresh_codec (one_chunk_world created_chunk Map.empty) 0 0 = Inr (c, w')"
    using r by (simp add: getChunk_def load_def one_chunk_world_def)
  with a b show ?thesis by blast
qed

theorem createChunk_then_deleteChunk_witness:
  "deleteChunk (one_chunk_world created_chunk Map.empty) 0 0 \<noteq> Inr empty_world"
  using createChunk_then_deleteChunk by simp

text \<open>
  Claim C1 says that \<open>getChunk\<close> on a present chunk whose data cannot be parsed fails
  with ChunkMalformed and removes the coordinate from the store. The code does neither:
  \<open>decompress\<close> catches the parse error, prints and returns (its calls of
  \<open>malformedChunk\<close> are commented out), so the second membership test of \<open>getChunk\<close>
  succeeds and the unloaded chunk object is returned. Evaluated on a world holding one chunk
  whose file is corrupt (gzip and \<open>nbt.load\<close> both raise): \<open>getChunk\<close> returns the chunk,
  with the blob cached and no tree, and the coordinate is still a key of the store.
\<close>

theorem getChunk_corrupt_file:
  "getChunk rejecting_codec
     (one_chunk_world (new_chunk (0, 0) ''c.0.0.dat'' None) [''c.0.0.dat'' \<mapsto> [1, 2]]) 0 0
   = Inr (new_chunk (0, 0) ''c.0.0.dat'' None \<lparr>compressedTag := Some [1, 2]\<rparr>,
          one_chunk_world (new_chunk (0, 0) ''c.0.0.dat'' None \<lparr>compressedTag := Some [1, 2]\<rparr>)
            [''c.0.0.dat'' \<mapsto> [1, 2]])"
  by (simp add: getChunk_def load_def decompress_def one_chunk_world_def new_chunk_def
      rejecting_codec_def)

section \<open>Point writes of sky light\<close>

lemma and15_range: "0 \<le> (x::int) AND 0xf \<and> x AND 0xf \<le> 15"
  by (simp add: AND_upper2')

lemma idx3_inj:
  assumes "i < 16" "j < 16" "k < 128" "i' < 16" "j' < 16" "k' < 128"
  shows "((i * 16 + j) * 128 + k = (i' * 16 + j') * 128 + k') \<longleftrightarrow> (i = i' \<and> j = j' \<and> k = (k'::nat))"
proof
  assume e: "(i * 16 + j) * 128 + k = (i' * 16 + j') * 128 + k'"
  have a: "((i * 16 + j) * 128 + k) div 128 = i * 16 + j" using assms by simp
  have b: "((i' * 16 + j') * 128 + k') div 128 = i' * 16 + j'" using assms by simp
  from a b e have c: "i * 16 + j = i' * 16 + j'" by simp
  have "(i * 16 + j) div 16 = i" "(i' * 16 + j') div 16 = i'" using assms by simp_all
  with c have i: "i = i'" by simp
  with c have j: "j = j'" by simp
  from e i j have "k = k'" by simp
  with i j show "i = i' \<and> j = j' \<and> k = k'" by simp
qed auto

lemma idx3_bound: "i < 16 \<Longrightarrow> j < 16 \<Longrightarrow> k < 128 \<Longrightarrow> (i * 16 + j) * 128 + k < (32768::nat)"
  by simp

lemma decompress_loaded: "root_tag c \<noteq> None \<Longrightarrow> decompress cdc c = Inr c"
  by (simp add: decompress_def)

lemma arrayForChunk_result:
  assumes "arrayForChunk key cdc w cx cz = Inr (a, w1)"
  shows "\<exists>c t. presentChunks w1 (cx, cz) = Some c \<and> root_tag c = Some t \<and> t key = Some a
     \<and> (\<forall>p. p \<noteq> (cx, cz) \<longrightarrow> presentChunks w1 p = presentChunks w p) \<and> files w1 = files w"
  using assms
  by (auto simp: arrayForChunk_def getChunk_def getProp_def Let_def
      split: option.splits sum.splits if_splits prod.splits)

lemma nat_and15: "nat ((x::int) AND 0xf) < 16"
  using and15_range [of x] by linarith

lemma setSkylightAt_step:
  assumes sky: "skyLightForChunk cdc w (drop_bit 4 x) (drop_bit 4 z) = Inr (skyLight, w1)"
    and shp: "unpacked_shape skyLight"
    and y: "0 \<le> y" "y < Height"
  shows "setSkylightAt cdc w x y z v =
      (if at3 skyLight (nat (x AND 0xf)) (nat (z AND 0xf)) (nat y) < v
       then Inr (True, w1\<lparr>presentChunks := (presentChunks w1)((drop_bit 4 x, drop_bit 4 z) :=
                          map_option (setProp SkyLight
                             (skyLight\<lparr>data := (data skyLight)
                                [(nat (x AND 0xf) * 16 + nat (z AND 0xf)) * 128 + nat y := v]\<rparr>))
                            (presentChunks w1 (drop_bit 4 x, drop_bit 4 z)))\<rparr>)
       else Inr (False, w1))"
proof -
  have "nat (x AND 0xf) < 16" "nat (z AND 0xf) < 16" "nat y < 128"
    using nat_and15 [of x] nat_and15 [of z] y by (simp_all add: Height_def)
  then show ?thesis
    using sky shp y
    by (simp add: setSkylightAt_def Let_def unpacked_shape_def Height_def)
qed

text \<open>
  Claim C10: for a chunk that is present and loads with a sky-light array of shape
  (16,16,128), and \<open>0 \<le> y < Height\<close>, \<open>setSkylightAt(x,y,z,v)\<close> returns True exactly when
  the existing cell is strictly below \<open>v\<close>, which is exactly when it writes; the cell then
  holds \<open>v\<close>, and otherwise keeps its value, so the cell is never lowered; every other cell
  of the array and every other chunk of the store is unchanged; and for \<open>y\<close> outside
  \<open>[0, Height)\<close> nothing is written and a false value is returned.
\<close>

theorem setSkylightAt_writes:
  assumes sky: "skyLightForChunk cdc w (drop_bit 4 x) (drop_bit 4 z) = Inr (skyLight, w1)"
    and shp: "unpacked_shape skyLight"
    and y: "0 \<le> y" "y < Height"
  shows "\<exists>w' c' t' skyLight'.
      setSkylightAt cdc w x y z v
        = Inr (at3 skyLight (nat (x AND 0xf)) (nat (z AND 0xf)) (nat y) < v, w')
    \<and> presentChunks w' (drop_bit 4 x, drop_bit 4 z) = Some c'
    \<and> root_tag c' = Some t' \<and> t' SkyLight = Some skyLight' \<and> unpacked_shape skyLight'
    \<and> at3 skyLight' (nat (x AND 0xf)) (nat (z AND 0xf)) (nat y)
        = (if at3 skyLight (nat (x AND 0xf)) (nat (z AND 0xf)) (nat y) < v
           then v else at3 skyLight (nat (x AND 0xf)) (nat (z AND 0xf)) (nat y))
    \<and> at3 skyLight (nat (x AND 0xf)) (nat (z AND 0xf)) (nat y)
          \<le> at3 skyLight' (nat (x AND 0xf)) (nat (z AND 0xf)) (nat y)
    \<and> (\<forall>i<16. \<forall>j<16. \<forall>k<128. (i, j, k) \<noteq> (nat (x AND 0xf), nat (z AND 0xf), nat y) \<longrightarrow>
          at3 skyLight' i j k = at3 skyLight i j k)
    \<and> (\<forall>p. p \<noteq> (drop_bit 4 x, drop_bit 4 z) \<longrightarrow> presentChunks w' p = presentChunks w p)
    \<and> (\<forall>y'. y' < 0 \<or> y' \<ge> Height \<longrightarrow> setSkylightAt cdc w x y' z v = Inr (False, w))"
proof -
  define xi zi yn where "xi = nat (x AND 0xf)" and "zi = nat (z AND 0xf)" and "yn = nat y"
  define n where "n = (xi * 16 + zi) * 128 + yn"
  define old where "old = at3 skyLight xi zi yn"
  have b: "xi < 16" "zi < 16" "yn < 128"
    using nat_and15 [of x] nat_and15 [of z] y by (simp_all add: Height_def xi_def zi_def yn_def)
  from sky obtain c t where
    c: "presentChunks w1 (drop_bit 4 x, drop_bit 4 z) = Some c" "root_tag c = Some t"
       "t SkyLight = Some skyLight"
    and o: "\<forall>p. p \<noteq> (drop_bit 4 x, drop_bit 4 z) \<longrightarrow> presentChunks w1 p = presentChunks w p"
    unfolding skyLightForChunk_def using arrayForChunk_result by blast
  have len: "length (data skyLight) = 32768" and sh: "shape skyLight = [16, 16, 128]"
    using shp by (simp_all add: unpacked_shape_def)
  have nlt: "n < length (data skyLight)"
    using b len by (simp add: n_def)
  have at: "at3 a i j k = data a ! ((i * 16 + j) * 128 + k)" if "shape a = [16, 16, 128]" for a i j k
    using that by (simp add: at3_def)
  have range: "\<forall>y'. y' < 0 \<or> y' \<ge> Height \<longrightarrow> setSkylightAt cdc w x y' z v = Inr (False, w)"
    by (simp add: setSkylightAt_def)
  have step: "setSkylightAt cdc w x y z v =
      (if old < v
       then Inr (True, w1\<lparr>presentChunks := (presentChunks w1)((drop_bit 4 x, drop_bit 4 z) :=
                 map_option (setProp SkyLight (skyLight\<lparr>data := (data skyLight)[n := v]\<rparr>))
                            (presentChunks w1 (drop_bit 4 x, drop_bit 4 z)))\<rparr>)
       else Inr (False, w1))"
    using setSkylightAt_step [OF sky shp y, of v]
    by (simp add: old_def n_def xi_def zi_def yn_def)
  show ?thesis
  proof (cases "old < v")
    case False
    have "setSkylightAt cdc w x y z v = Inr (old < v, w1)"
      using step False by simp
    moreover have "at3 skyLight xi zi yn \<le> at3 skyLight xi zi yn" by simp
    ultimately show ?thesis
      using c o shp False range
      unfolding old_def xi_def zi_def yn_def by auto
  next
    case True
    define sky' where "sky' = skyLight\<lparr>data := (data skyLight)[n := v]\<rparr>"
    define c' where "c' = setProp SkyLight sky' c"
    define w' where "w' = w1\<lparr>presentChunks := (presentChunks w1)((drop_bit 4 x, drop_bit 4 z) \<mapsto> c')\<rparr>"
    have r: "setSkylightAt cdc w x y z v = Inr (old < v, w')"
      using step True c by (simp add: w'_def c'_def sky'_def)
    have p: "presentChunks w' (drop_bit 4 x, drop_bit 4 z) = Some c'"
      by (simp add: w'_def)
    have t': "root_tag c' = Some (t(SkyLight \<mapsto> sky'))" "(t(SkyLight \<mapsto> sky')) SkyLight = Some sky'"
      using c by (simp_all add: c'_def setProp_def)
    have s': "unpacked_shape sky'"
      using shp by (simp add: sky'_def unpacked_shape_def)
    have sh': "shape sky' = [16, 16, 128]"
      using sh by (simp add: sky'_def)
    have new: "at3 sky' xi zi yn = v"
      unfolding at [OF sh'] n_def [symmetric] using nlt by (simp add: sky'_def)
    have others: "\<forall>i<16. \<forall>j<16. \<forall>k<128. (i, j, k) \<noteq> (xi, zi, yn) \<longrightarrow>
          at3 sky' i j k = at3 skyLight i j k"
    proof (intro allI impI)
      fix i j k :: nat
      assume i: "i < 16" and j: "j < 16" and k: "k < 128" and ne: "(i, j, k) \<noteq> (xi, zi, yn)"
      have "(i * 16 + j) * 128 + k \<noteq> n"
        unfolding n_def using idx3_inj [OF i j k b] ne by simp
      then show "at3 sky' i j k = at3 skyLight i j k"
        unfolding at [OF sh'] at [OF sh] by (simp add: sky'_def)
    qed
    have mono: "old \<le> v"
      using True by simp
    have oth: "\<forall>p. p \<noteq> (drop_bit 4 x, drop_bit 4 z) \<longrightarrow> presentChunks w' p = presentChunks w p"
      using o by (simp add: w'_def)
    show ?thesis
      using r p t' s' new others mono oth range True
      unfolding old_def xi_def zi_def yn_def
      by (intro exI [of _ w'] exI [of _ c'] exI [of _ "t(SkyLight \<mapsto> sky')"] exI [of _ sky']) simp
  qed
qed

lemma air_sky:
  "skyLightForChunk cdc (air_world s) 0 0 = Inr (full_array s, air_world s)"
  by (simp add: skyLightForChunk_def arrayForChunk_def getChunk_def load_def getProp_def
      decompress_def air_world_def air_chunk_def air_tag_def one_chunk_world_def new_chunk_def)

lemma full_array_shape: "unpacked_shape (full_array s)"
  by (simp add: unpacked_shape_def full_array_def)

theorem setSkylightAt_writes_witness:
  "(\<exists>w'. setSkylightAt rejecting_codec (air_world 0) 0 5 0 7 = Inr (True, w'))
   \<and> (\<exists>w'. setSkylightAt rejecting_codec (air_world 15) 0 5 0 7 = Inr (False, w'))"
proof -
  have s: "skyLightForChunk rejecting_codec (air_world v) (drop_bit 4 0) (drop_bit 4 0)
      = Inr (full_array v, air_world v)" for v
    by (simp add: air_sky)
  have y: "(0::int) \<le> 5" "5 < Height"
    by (simp_all add: Height_def)
  have a: "at3 (full_array v) (nat (0 AND 0xf)) (nat (0 AND 0xf)) (nat 5) = v" for v
    by (simp add: at3_def full_array_def)
  have "\<exists>w'. setSkylightAt rejecting_codec (air_world 0) 0 5 0 7 = Inr (True, w')"
    using setSkylightAt_writes [OF s [of 0] full_array_shape y, of 7] a [of 0] by auto
  moreover have "\<exists>w'. setSkylightAt rejecting_codec (air_world 15) 0 5 0 7 = Inr (False, w')"
    using setSkylightAt_writes [OF s [of 15] full_array_shape y, of 7] a [of 15] by auto
  ultimately show ?thesis by blast
qed

section \<open>The height map\<close>

lemma at3_full: "i < 16 \<Longrightarrow> j < 16 \<Longrightarrow> k < 128 \<Longrightarrow> at3 (full_array v) i j k = v"
  using idx3_bound [of i j k] by (simp add: at3_def full_array_def)

lemma concat_map_Nil: "(\<And>x. x \<in> set xs \<Longrightarrow> f x = []) \<Longrightarrow> concat (map f xs) = []"
  by (induction xs) auto

lemma nonzero3_air:
  assumes "tbl 0 = 0"
  shows "nonzero3 tbl (full_array 0) = []"
proof -
  have s: "shape (full_array 0) = [16, 16, 128]"
    by (simp add: full_array_def)
  show ?thesis
    unfolding nonzero3_def s
    by (intro concat_map_Nil) (simp add: at3_full assms)
qed

lemma air_chunk_props:
  "getProp Blocks cdc (air_chunk s) = Inr (full_array 0, air_chunk s)"
  "getProp HeightMap cdc (air_chunk s) = Inr (zeros [16, 16], air_chunk s)"
  "getProp SkyLight cdc (air_chunk s) = Inr (full_array s, air_chunk s)"
  "root_tag (air_chunk s) = Some (air_tag s)"
  by (simp_all add: getProp_def decompress_def air_chunk_def air_tag_def new_chunk_def)

text \<open>
  Claim C5 says that a column without any light-absorbing block gets height 0. The code
  zeroes the height map, writes the highest absorbing \<open>y\<close> into the columns that have one,
  and then adds 1 to every cell, also to the cells of the columns that have none.
  Evaluated on a loaded chunk of air (every block 0, absorption of block 0 is 0): no index
  is found, and every cell of the height map is 1, in particular that of column (0,0).
\<close>

theorem generateHeightMap_air_column:
  "at3 (full_array 0) 0 0 0 = 0 \<and> lightAbsorption air_materials 0 = 0
   \<and> generateHeightMap Map.empty rejecting_codec air_materials (air_chunk 0)
      = Inr (setProp HeightMap \<lparr>shape = [16, 16], data = replicate (16 * 16) 1\<rparr> (air_chunk 0))
   \<and> at2 \<lparr>shape = [16, 16], data = replicate (16 * 16) 1\<rparr> 0 0 = 1"
proof -
  have n: "nonzero3 (lightAbsorption air_materials) (full_array 0) = []"
    by (rule nonzero3_air) (simp add: air_materials_def)
  have z: "map (\<lambda>v. v + 1) (map (\<lambda>_. 0 :: byte) (replicate 256 (0 :: byte))) = replicate 256 1"
    by (simp add: map_replicate_const)
  have g: "generateHeightMap Map.empty rejecting_codec air_materials (air_chunk 0)
      = Inr (setProp HeightMap \<lparr>shape = [16, 16], data = replicate (16 * 16) 1\<rparr> (air_chunk 0))"
    by (simp add: generateHeightMap_def air_chunk_props n Let_def)
       (simp add: full_array_def zeros_def z)
  have a: "at3 (full_array 0) 0 0 0 = 0"
    by (simp add: at3_full)
  have b: "at2 \<lparr>shape = [16, 16], data = replicate (16 * 16) 1\<rparr> 0 0 = 1"
    by (simp add: at2_def)
  from g a b show ?thesis
    by (simp add: air_materials_def)
qed

theorem generateHeightMap_air_column_witness:
  "result_flags (generateHeightMap Map.empty rejecting_codec air_materials (air_chunk 0))
     = Inr (False, False, False)
   \<and> array_of (setProp HeightMap \<lparr>shape = [16, 16], data = replicate (16 * 16) 1\<rparr> (air_chunk 0))
       HeightMap = Some \<lparr>shape = [16, 16], data = replicate (16 * 16) 1\<rparr>"
  using generateHeightMap_air_column
  by (simp add: result_flags_def setProp_def array_of_def air_chunk_def new_chunk_def)

lemma getProp_loaded:
  "root_tag c = Some t \<Longrightarrow> t key = Some a \<Longrightarrow> getProp key cdc c = Inr (a, c)"
  by (simp add: getProp_def decompress_def)

lemma nonzero3_range:
  "(x, z, y) \<in> set (nonzero3 tbl b) \<Longrightarrow> x < shape b ! 0 \<and> z < shape b ! 1 \<and> y < shape b ! 2"
  by (auto simp: nonzero3_def split: if_splits)

lemma unat_of_nat_byte: "y < 128 \<Longrightarrow> unat (of_nat y :: byte) = y"
  by (simp add: unat_of_nat)

lemma assign_heights_ok:
  assumes "\<forall>(x, z, y) \<in> set L. x < 16 \<and> z < 16 \<and> y < 128"
    and "shape hm = [16, 16]" and "length (data hm) = 16 * 16"
    and "\<forall>v \<in> set (data hm). unat v < 128"
  shows "\<exists>hm'. assign_heights L hm = Inr hm' \<and> shape hm' = [16, 16]
     \<and> length (data hm') = 16 * 16 \<and> (\<forall>v \<in> set (data hm'). unat v < 128)"
  using assms
proof (induction L arbitrary: hm)
  case Nil
  then show ?case by simp
next
  case (Cons p L)
  obtain x z y where p: "p = (x, z, y)" by (cases p)
  from Cons.prems(1) p have b: "x < 16" "z < 16" "y < 128" by auto
  define hm1 where "hm1 = hm\<lparr>data := (data hm)[z * (shape hm ! 1) + x := of_nat y]\<rparr>"
  have s: "shape hm1 = [16, 16]" "length (data hm1) = 16 * 16"
    using Cons.prems(2,3) by (simp_all add: hm1_def)
  have "set (data hm1) \<subseteq> insert (of_nat y) (set (data hm))"
    unfolding hm1_def by (simp add: set_update_subset_insert)
  then have v: "\<forall>v \<in> set (data hm1). unat v < 128"
    using Cons.prems(4) b(3) unat_of_nat_byte [of y] by auto
  have r: "\<forall>(x, z, y) \<in> set L. x < 16 \<and> z < 16 \<and> y < 128"
    using Cons.prems(1) by simp
  from Cons.IH [OF r s v] obtain hm' where
    "assign_heights L hm1 = Inr hm'" "shape hm' = [16, 16]"
    "length (data hm') = 16 * 16" "\<forall>v \<in> set (data hm'). unat v < 128"
    by blast
  then show ?case
    using p b Cons.prems(2) by (simp add: hm1_def)
qed

lemma unat_succ_byte: "unat (v :: byte) < 128 \<Longrightarrow> unat (v + 1) \<le> 128"
  by (simp add: unat_word_ariths)

lemma generateHeightMap_after_load:
  assumes l: "(if root_tag c = None then load fs cdc c else Inr c) = Inr c1"
    and r: "root_tag c1 = Some t" and w: "wf_tag t"
  shows "\<exists>hm. generateHeightMap fs cdc m c = Inr (setProp HeightMap hm c1)
     \<and> shape hm = [16, 16] \<and> length (data hm) = 16 * 16
     \<and> (\<forall>v \<in> set (data hm). unat v \<le> 128)"
proof -
  from w obtain blocks heightMap where
    k: "t Blocks = Some blocks" "t HeightMap = Some heightMap"
    and s: "unpacked_shape blocks" "shape heightMap = [16, 16]" "length (data heightMap) = 16 * 16"
    by (auto simp: wf_tag_def split: option.splits)
  define hm0 where "hm0 = heightMap\<lparr>data := map (\<lambda>_. 0) (data heightMap)\<rparr>"
  have h0: "shape hm0 = [16, 16]" "length (data hm0) = 16 * 16" "\<forall>v \<in> set (data hm0). unat v < 128"
    using s by (auto simp: hm0_def)
  have L: "\<forall>(x, z, y) \<in> set (nonzero3 (lightAbsorption m) blocks). x < 16 \<and> z < 16 \<and> y < 128"
    using nonzero3_range [of _ _ _ "lightAbsorption m" blocks] s(1)
    by (auto simp: unpacked_shape_def)
  from assign_heights_ok [OF L h0] obtain hm' where
    a: "assign_heights (nonzero3 (lightAbsorption m) blocks) hm0 = Inr hm'"
    and s': "shape hm' = [16, 16]" "length (data hm') = 16 * 16" "\<forall>v \<in> set (data hm'). unat v < 128"
    by blast
  define hm where "hm = hm'\<lparr>data := map (\<lambda>v. v + 1) (data hm')\<rparr>"
  have g: "generateHeightMap fs cdc m c = Inr (setProp HeightMap hm c1)"
    unfolding generateHeightMap_def l
    using r k s a
    by (simp add: getProp_loaded Let_def unpacked_shape_def hm0_def [symmetric] hm_def)
  have "\<forall>v \<in> set (data hm). unat v \<le> 128"
    using s'(3) unat_succ_byte by (auto simp: hm_def)
  with g s' show ?thesis
    by (intro exI [of _ hm]) (simp add: hm_def)
qed

lemma generateHeightMap_loaded:
  assumes r: "root_tag c = Some t" and w: "wf_tag t"
  shows "\<exists>hm. generateHeightMap fs cdc m c = Inr (setProp HeightMap hm c)
     \<and> shape hm = [16, 16] \<and> length (data hm) = 16 * 16
     \<and> (\<forall>v \<in> set (data hm). unat v \<le> 128)"
  using generateHeightMap_after_load [of c fs cdc c t m] r w by simp

lemma le15_of_int: "0 < lv \<Longrightarrow> lv \<le> 15 \<Longrightarrow> (of_int lv :: byte) \<le> 15"
proof -
  assume a: "0 < lv" "lv \<le> 15"
  then have "uint (of_int lv :: byte) = lv"
    by (simp add: uint_word_of_int take_bit_int_eq_self)
  with a show ?thesis
    by (simp add: word_le_def)
qed

lemma fast_column_ok:
  assumes "h \<le> 128" and "lv \<le> 15" and "\<forall>v \<in> set col. v \<le> 15"
  shows "\<exists>col'. fast_column tbl blk lv h col = Inr col' \<and> length col' = length col
     \<and> (\<forall>v \<in> set col'. v \<le> 15)"
  using assms
proof (induction h arbitrary: lv col)
  case 0
  then show ?case by simp
next
  case (Suc y)
  define lv' where "lv' = lv - max (uint (tbl (blk y))) 1"
  have l: "lv' \<le> 15"
    using Suc.prems(2) by (simp add: lv'_def)
  show ?case
  proof (cases "lv' \<le> 0")
    case True
    then show ?thesis
      using Suc.prems by (simp add: lv'_def [symmetric] Let_def)
  next
    case False
    have "set (col[y := of_int lv']) \<subseteq> insert (of_int lv') (set col)"
      by (rule set_update_subset_insert)
    then have c: "\<forall>v \<in> set (col[y := of_int lv']). v \<le> 15"
      using Suc.prems(3) le15_of_int [of lv'] False l by auto
    have y: "y \<le> 128" using Suc.prems(1) by simp
    from Suc.IH [OF y l c] False Suc.prems(1) show ?thesis
      by (simp add: lv'_def [symmetric] Let_def)
  qed
qed

lemma fast_columns_ok:
  assumes "\<forall>p \<in> set ps. \<exists>col. f p = Inr col \<and> length col = 128 \<and> (\<forall>v \<in> set col. v \<le> 15)"
  shows "\<exists>d. fast_columns f ps = Inr d \<and> length d = 128 * length ps \<and> (\<forall>v \<in> set d. v \<le> (15::byte))"
  using assms
proof (induction ps)
  case Nil
  then show ?case by simp
next
  case (Cons p ps)
  from Cons.prems obtain col where
    c: "f p = Inr col" "length col = 128" "\<forall>v \<in> set col. v \<le> 15"
    by auto
  from Cons.IH Cons.prems obtain d where
    d: "fast_columns f ps = Inr d" "length d = 128 * length ps" "\<forall>v \<in> set d. v \<le> 15"
    by auto
  from c d show ?case by auto
qed

lemma fast_column_at_ok:
  assumes "unat (at2 heightMap z x) \<le> 128"
  shows "\<exists>col. fast_column_at tbl blocks heightMap (x, z) = Inr col \<and> length col = 128
     \<and> (\<forall>v \<in> set col. v \<le> 15)"
proof -
  define h where "h = unat (at2 heightMap z x)"
  have a: "\<forall>v \<in> set (replicate (min h 128) (0 :: byte) @ replicate (128 - h) 15). v \<le> 15"
    by auto
  have l: "length (replicate (min h 128) (0 :: byte) @ replicate (128 - h) 15) = 128"
    using assms by (simp add: h_def)
  from fast_column_ok [OF assms [folded h_def] _ a, of 15 tbl "\<lambda>y. at3 blocks x z y"] l
  show ?thesis
    by (simp add: fast_column_at_def Let_def h_def [symmetric])
qed

lemma at2_in_set:
  "shape a = [16, 16] \<Longrightarrow> length (data a) = 16 * 16 \<Longrightarrow> i < 16 \<Longrightarrow> j < 16
     \<Longrightarrow> at2 a i j \<in> set (data a)"
  by (simp add: at2_def)

lemma genFastLights_loaded:
  assumes r: "root_tag c = Some t" and w: "wf_tag t"
    and h: "\<forall>hm. t HeightMap = Some hm \<longrightarrow> (\<forall>v \<in> set (data hm). unat v \<le> 128)"
  shows "\<exists>sky. genFastLights cdc m c = Inr (setProp SkyLight sky c)
     \<and> unpacked_shape sky \<and> (\<forall>v \<in> set (data sky). v \<le> 15)"
proof -
  from w obtain blocks heightMap skyLight where
    k: "t Blocks = Some blocks" "t HeightMap = Some heightMap" "t SkyLight = Some skyLight"
    and s: "unpacked_shape blocks" "unpacked_shape skyLight"
       "shape heightMap = [16, 16]" "length (data heightMap) = 16 * 16"
    by (auto simp: wf_tag_def split: option.splits)
  have "\<forall>p \<in> set (List.product [0..<16] [0..<16]).
          \<exists>col. fast_column_at (la m) blocks heightMap p = Inr col \<and> length col = 128
             \<and> (\<forall>v \<in> set col. v \<le> 15)"
  proof
    fix p assume "p \<in> set (List.product [0..<16] [0..<16])"
    then obtain x z where p: "p = (x, z)" "x < 16" "z < 16" by auto
    have "at2 heightMap z x \<in> set (data heightMap)"
      using at2_in_set [OF s(3,4) p(3) p(2)] .
    with h k have "unat (at2 heightMap z x) \<le> 128" by simp
    from fast_column_at_ok [OF this] p show
      "\<exists>col. fast_column_at (la m) blocks heightMap p = Inr col \<and> length col = 128
             \<and> (\<forall>v \<in> set col. v \<le> 15)"
      by simp
  qed
  from fast_columns_ok [OF this] obtain d where
    d: "fast_columns (fast_column_at (la m) blocks heightMap) (List.product [0..<16] [0..<16]) = Inr d"
       "length d = 128 * length (List.product [0..<16] [0..<16])" "\<forall>v \<in> set d. v \<le> 15"
    by blast
  have l: "length d = 16 * 16 * 128"
    using d(2) by simp
  define sky where "sky = skyLight\<lparr>data := d\<rparr>"
  have "genFastLights cdc m c = Inr (setProp SkyLight sky c)"
    using r k s d(1) by (simp add: genFastLights_def getProp_loaded sky_def)
  moreover have "unpacked_shape sky"
    using s(2) l by (simp add: sky_def unpacked_shape_def)
  moreover have "\<forall>v \<in> set (data sky). v \<le> 15"
    using d(3) by (simp add: sky_def)
  ultimately show ?thesis by blast
qed

section \<open>chunkChanged\<close>

lemma decompress_flags: "decompress cdc c = Inr c' \<Longrightarrow> same_flags c c'"
  by (auto simp: decompress_def unpackChunkData_def same_flags_def Let_def
      split: option.splits sum.splits if_splits prod.splits)

lemma load_flags: "load fs cdc c = Inr c' \<Longrightarrow> same_flags c c'"
  by (auto simp: load_def same_flags_def split: option.splits sum.splits if_splits
      dest!: decompress_flags)

lemma getProp_flags: "getProp key cdc c = Inr (a, c') \<Longrightarrow> same_flags c c'"
  by (auto simp: getProp_def split: option.splits sum.splits dest!: decompress_flags)

lemma getProp_root: "getProp key cdc c = Inr (a, c') \<Longrightarrow> root_tag c' \<noteq> None"
  by (auto simp: getProp_def split: option.splits sum.splits)

lemma getProp_same: "getProp key cdc c = Inr (a, c') \<Longrightarrow> root_tag c \<noteq> None \<Longrightarrow> c' = c"
  by (auto simp: getProp_def decompress_def split: option.splits sum.splits)

lemma same_flags_trans: "same_flags a b \<Longrightarrow> same_flags b c \<Longrightarrow> same_flags a c"
  by (simp add: same_flags_def)

lemma same_flags_setProp: "same_flags c (setProp key a c)"
  by (simp add: same_flags_def setProp_def)

lemma setProp_root: "root_tag c \<noteq> None \<Longrightarrow> root_tag (setProp key a c) \<noteq> None"
  by (auto simp: setProp_def)

lemma generateHeightMap_flags:
  assumes "generateHeightMap fs cdc m c = Inr c'"
  shows "same_flags c c' \<and> root_tag c' \<noteq> None"
proof -
  from assms obtain c1 blocks c2 heightMap c3 hm where
    a: "(if root_tag c = None then load fs cdc c else Inr c) = Inr c1"
    and b: "getProp Blocks cdc c1 = Inr (blocks, c2)"
    and d: "getProp HeightMap cdc c2 = Inr (heightMap, c3)"
    and e: "c' = setProp HeightMap hm c3"
    by (auto simp: generateHeightMap_def Let_def split: sum.splits prod.splits if_splits)
  have "same_flags c c1"
    using a load_flags [of fs cdc c c1] by (auto simp: same_flags_def split: if_splits)
  with getProp_flags [OF b] getProp_flags [OF d] same_flags_setProp [of c3 HeightMap hm] e
  have "same_flags c c'"
    by (auto simp: same_flags_def)
  moreover have "root_tag c' \<noteq> None"
    using getProp_root [OF d] e by (simp add: setProp_root)
  ultimately show ?thesis by simp
qed

lemma genFastLights_flags:
  assumes "genFastLights cdc m c = Inr c'" and "root_tag c \<noteq> None"
  shows "same_flags c c' \<and> array_of c' HeightMap = array_of c HeightMap"
proof -
  from assms(1) obtain skyLight c1 heightMap c2 blocks c3 sky where
    a: "getProp SkyLight cdc c = Inr (skyLight, c1)"
    and b: "getProp HeightMap cdc c1 = Inr (heightMap, c2)"
    and d: "getProp Blocks cdc c2 = Inr (blocks, c3)"
    and e: "c' = setProp SkyLight sky c3"
    by (auto simp: genFastLights_def Let_def split: sum.splits prod.splits if_splits)
  have "c1 = c" using getProp_same [OF a assms(2)] .
  moreover have "c2 = c1" using getProp_same [OF b] getProp_root [OF a] by simp
  moreover have "c3 = c2" using getProp_same [OF d] getProp_root [OF b] by simp
  ultimately have "c' = setProp SkyLight sky c" using e by simp
  then show ?thesis
    using assms(2) by (auto simp: same_flags_def setProp_def array_of_def)
qed

lemma chunkChanged_unfold:
  "chunkChanged fs cdc m c calc =
     (if root_tag c = None \<and> compressedTag c = None then Inr c
      else case generateHeightMap fs cdc m
                  (with_flags (root_tag c \<noteq> None \<or> needsCompression c) True True c) of
             Inl e \<Rightarrow> Inl e
           | Inr c2 \<Rightarrow> if calc then genFastLights cdc m c2 else Inr c2)"
  by (cases "root_tag c = None") (auto simp: chunkChanged_def Let_def with_flags_def)

lemma wf_tag_heights:
  assumes "wf_tag t" and "shape hm = [16, 16]" and "length (data hm) = 16 * 16"
  shows "wf_tag (t(HeightMap \<mapsto> hm))"
  using assms by (simp add: wf_tag_def)

lemma decompress_with_flags:
  "decompress cdc (with_flags a b d x) = map_sum id (with_flags a b d) (decompress cdc x)"
  by (auto simp: decompress_def unpackChunkData_def Let_def with_flags_def
      split: option.splits sum.splits prod.splits)

lemma load_with_flags:
  "load fs cdc (with_flags a b d x) = map_sum id (with_flags a b d) (load fs cdc x)"
proof -
  have e: "(with_flags a b d x)\<lparr>compressedTag := Some y\<rparr>
      = with_flags a b d (x\<lparr>compressedTag := Some y\<rparr>)" for y
    by (simp add: with_flags_def)
  have f: "compressedTag (with_flags a b d x) = compressedTag x"
      "root_tag (with_flags a b d x) = root_tag x" "filename (with_flags a b d x) = filename x"
    by (simp_all add: with_flags_def)
  show ?thesis
    unfolding load_def f
    by (auto simp: e decompress_with_flags split: option.splits)
       (simp_all add: with_flags_def)
qed

lemma chunkChanged_after_load:
  assumes n: "\<not> (root_tag c = None \<and> compressedTag c = None)"
    and l: "(if root_tag c = None then load fs cdc c else Inr c) = Inr c1"
    and r: "root_tag c1 = Some t" and w: "wf_tag t"
  shows "\<exists>c'. chunkChanged fs cdc m c calc = Inr c'"
proof -
  define a where "a = (root_tag c \<noteq> None \<or> needsCompression c)"
  define c0 where "c0 = with_flags a True True c"
  define c1' where "c1' = with_flags a True True c1"
  have l0: "(if root_tag c0 = None then load fs cdc c0 else Inr c0) = Inr c1'"
  proof (cases "root_tag c = None")
    case True
    with l have "load fs cdc c = Inr c1" by simp
    then have "load fs cdc c0 = Inr c1'"
      by (simp add: c0_def c1'_def load_with_flags)
    with True show ?thesis by (simp add: c0_def with_flags_def)
  next
    case False
    with l have "c1 = c" by simp
    with False show ?thesis by (auto simp: c0_def c1'_def with_flags_def)
  qed
  have r1: "root_tag c1' = Some t"
    using r by (simp add: c1'_def with_flags_def)
  from generateHeightMap_after_load [OF l0 r1 w, of m] obtain hm where
    g: "generateHeightMap fs cdc m c0 = Inr (setProp HeightMap hm c1')"
    and s: "shape hm = [16, 16]" "length (data hm) = 16 * 16" "\<forall>v \<in> set (data hm). unat v \<le> 128"
    by blast
  have r2: "root_tag (setProp HeightMap hm c1') = Some (t(HeightMap \<mapsto> hm))"
    using r1 by (simp add: setProp_def)
  have h: "\<forall>hm'. (t(HeightMap \<mapsto> hm)) HeightMap = Some hm' \<longrightarrow> (\<forall>v \<in> set (data hm'). unat v \<le> 128)"
    using s(3) by simp
  from genFastLights_loaded [OF r2 wf_tag_heights [OF w s(1,2)] h, of cdc m]
  obtain sky where "genFastLights cdc m (setProp HeightMap hm c1') = Inr (setProp SkyLight sky (setProp HeightMap hm c1'))"
    by blast
  with g n show ?thesis
    unfolding chunkChanged_unfold a_def [symmetric] c0_def [symmetric] by (cases calc) auto
qed

lemma chunkChanged_noop:
  "root_tag c = None \<and> compressedTag c = None \<Longrightarrow> chunkChanged fs cdc m c calc = Inr c"
  by (simp add: chunkChanged_unfold)

lemma chunkChanged_result:
  assumes "chunkChanged fs cdc m c calc = Inr c'"
    and n: "root_tag c \<noteq> None \<or> compressedTag c \<noteq> None"
  shows "dirty c' \<and> needsLighting c'
     \<and> (needsCompression c' \<longleftrightarrow> root_tag c \<noteq> None \<or> needsCompression c)
     \<and> (\<exists>c2. generateHeightMap fs cdc m
                  (with_flags (root_tag c \<noteq> None \<or> needsCompression c) True True c) = Inr c2
             \<and> array_of c' HeightMap = array_of c2 HeightMap)"
proof -
  define c0 where "c0 = with_flags (root_tag c \<noteq> None \<or> needsCompression c) True True c"
  from assms obtain c2 where
    g: "generateHeightMap fs cdc m c0 = Inr c2"
    and e: "(if calc then genFastLights cdc m c2 else Inr c2) = Inr c'"
    unfolding chunkChanged_unfold c0_def [symmetric]
    by (auto split: sum.splits if_splits)
  from generateHeightMap_flags [OF g] have f2: "same_flags c0 c2" and r2: "root_tag c2 \<noteq> None"
    by simp_all
  have "same_flags c2 c' \<and> array_of c' HeightMap = array_of c2 HeightMap"
  proof (cases calc)
    case True
    with e genFastLights_flags [OF _ r2] show ?thesis by simp
  next
    case False
    with e show ?thesis by (simp add: same_flags_def)
  qed
  with f2 g show ?thesis
    unfolding c0_def [symmetric] by (auto simp: same_flags_def c0_def with_flags_def)
qed

lemma wf_air_tag: "wf_tag (air_tag s)"
  by (simp add: wf_tag_def air_tag_def full_array_shape zeros_def)

text \<open>
  Claim C7, as stated, says that \<open>chunkChanged\<close> sets \<open>needsCompression\<close> also on a chunk
  that holds only a compressed blob. The \<open>if\<close>/\<open>elif\<close> of the code sets it only when the
  tree is materialised. On a chunk with a blob, no tree and \<open>needsCompression = False\<close>
  (the codec decodes the blob to a well-formed chunk), \<open>chunkChanged()\<close> returns with
  \<open>dirty\<close> and \<open>needsLighting\<close> set and \<open>needsCompression\<close> still False.
\<close>

theorem chunkChanged_compressed_counterexample:
  "root_tag compressed_chunk = None \<and> compressedTag compressed_chunk = Some [1, 2]
   \<and> needsCompression compressed_chunk = False
   \<and> result_flags (chunkChanged Map.empty fresh_codec air_materials compressed_chunk True)
       = Inr (False, True, True)"
proof -
  have r: "root_tag compressed_chunk = None" and b: "compressedTag compressed_chunk = Some [1, 2]"
    and f: "needsCompression compressed_chunk = False"
    by (simp_all add: compressed_chunk_def new_chunk_def)
  from decompress_fresh [OF r b] obtain t where
    d: "decompress fresh_codec compressed_chunk = Inr (compressed_chunk\<lparr>root_tag := Some t\<rparr>)"
    and w: "wf_tag t"
    by blast
  have n: "\<not> (root_tag compressed_chunk = None \<and> compressedTag compressed_chunk = None)"
    using b by simp
  have l: "(if root_tag compressed_chunk = None
            then load Map.empty fresh_codec compressed_chunk else Inr compressed_chunk)
        = Inr (compressed_chunk\<lparr>root_tag := Some t\<rparr>)"
    using r b d by (simp add: load_def)
  have rt: "root_tag (compressed_chunk\<lparr>root_tag := Some t\<rparr>) = Some t"
    by simp
  from chunkChanged_after_load [OF n l rt w, of air_materials True] obtain c' where
    c: "chunkChanged Map.empty fresh_codec air_materials compressed_chunk True = Inr c'"
    by blast
  from chunkChanged_result [OF c] b r f
  have "dirty c' \<and> needsLighting c' \<and> \<not> needsCompression c'"
    by simp
  with c r b f show ?thesis
    by (simp add: result_flags_def)
qed

text \<open>
  Claim C7, amended: \<open>chunkChanged\<close> on a chunk with neither tree nor blob returns the
  chunk unchanged. On every other chunk, whenever it returns, \<open>dirty\<close> and \<open>needsLighting\<close>
  are set, \<open>needsCompression\<close> is set if the tree was materialised at the call and is left
  as it was if only the blob was present, and the height map is the one that
  \<open>generateHeightMap\<close> computes on the chunk with these flags. It does return on a loaded
  chunk, and on a chunk with only a blob whenever the blob decompresses to a loaded chunk.
\<close>

theorem chunkChanged_flags:
  "(root_tag c = None \<and> compressedTag c = None \<longrightarrow> chunkChanged fs cdc m c calc = Inr c)
   \<and> (\<forall>c'. chunkChanged fs cdc m c calc = Inr c'
          \<and> (root_tag c \<noteq> None \<or> compressedTag c \<noteq> None) \<longrightarrow>
        dirty c' \<and> needsLighting c'
        \<and> (needsCompression c' \<longleftrightarrow> root_tag c \<noteq> None \<or> needsCompression c)
        \<and> (\<exists>c2. generateHeightMap fs cdc m
                     (c\<lparr>needsCompression := (root_tag c \<noteq> None \<or> needsCompression c),
                        dirty := True, needsLighting := True\<rparr>) = Inr c2
                \<and> array_of c' HeightMap = array_of c2 HeightMap))
   \<and> (loaded c \<longrightarrow> (\<exists>c'. chunkChanged fs cdc m c calc = Inr c'))
   \<and> (root_tag c = None \<and> compressedTag c \<noteq> None
        \<and> (\<exists>c1. decompress cdc c = Inr c1 \<and> loaded c1) \<longrightarrow>
        (\<exists>c'. chunkChanged fs cdc m c calc = Inr c'))"
proof (intro conjI allI impI)
  show "chunkChanged fs cdc m c calc = Inr c" if "root_tag c = None \<and> compressedTag c = None"
    using that by (rule chunkChanged_noop)
next
  fix c'
  assume a: "chunkChanged fs cdc m c calc = Inr c' \<and> (root_tag c \<noteq> None \<or> compressedTag c \<noteq> None)"
  from chunkChanged_result [of fs cdc m c calc c'] a
  have r: "dirty c' \<and> needsLighting c'
     \<and> (needsCompression c' \<longleftrightarrow> root_tag c \<noteq> None \<or> needsCompression c)
     \<and> (\<exists>c2. generateHeightMap fs cdc m
                  (with_flags (root_tag c \<noteq> None \<or> needsCompression c) True True c) = Inr c2
             \<and> array_of c' HeightMap = array_of c2 HeightMap)"
    by blast
  from r show "dirty c'" by simp
  from r show "needsLighting c'" by simp
  from r show "needsCompression c' \<longleftrightarrow> root_tag c \<noteq> None \<or> needsCompression c" by simp
  from r show "\<exists>c2. generateHeightMap fs cdc m
                     (c\<lparr>needsCompression := (root_tag c \<noteq> None \<or> needsCompression c),
                        dirty := True, needsLighting := True\<rparr>) = Inr c2
                \<and> array_of c' HeightMap = array_of c2 HeightMap"
    by (simp add: with_flags_def)
next
  assume "loaded c"
  then obtain t where t: "root_tag c = Some t" "wf_tag t"
    by (auto simp: loaded_def split: option.splits)
  have n: "\<not> (root_tag c = None \<and> compressedTag c = None)"
    using t by simp
  have l: "(if root_tag c = None then load fs cdc c else Inr c) = Inr c"
    using t by simp
  from chunkChanged_after_load [OF n l t] show "\<exists>c'. chunkChanged fs cdc m c calc = Inr c'" .
next
  assume a: "root_tag c = None \<and> compressedTag c \<noteq> None
        \<and> (\<exists>c1. decompress cdc c = Inr c1 \<and> loaded c1)"
  then obtain c1 t where d: "decompress cdc c = Inr c1" and t: "root_tag c1 = Some t" "wf_tag t"
    by (auto simp: loaded_def split: option.splits)
  have n: "\<not> (root_tag c = None \<and> compressedTag c = None)"
    using a by simp
  have l: "(if root_tag c = None then load fs cdc c else Inr c) = Inr c1"
    using a d by (auto simp: load_def)
  from chunkChanged_after_load [OF n l t] show "\<exists>c'. chunkChanged fs cdc m c calc = Inr c'" .
qed

theorem chunkChanged_flags_witness:
  "loaded (air_chunk 0)
   \<and> (\<exists>c'. chunkChanged Map.empty rejecting_codec air_materials (air_chunk 0) True = Inr c'
         \<and> dirty c' \<and> needsLighting c' \<and> needsCompression c')"
proof -
  have l: "loaded (air_chunk 0)"
    by (simp add: loaded_def air_chunk_props wf_air_tag)
  have r: "root_tag (air_chunk 0) \<noteq> None"
    by (simp add: air_chunk_props)
  from chunkChanged_flags [of "air_chunk 0" Map.empty rejecting_codec air_materials True] l r
  show ?thesis
    by blast
qed

section \<open>getChunkSlices\<close>

lemma div16_bounds: "16 * ((x::int) div 16) \<le> x \<and> x < 16 * (x div 16) + 16"
proof -
  have "x = 16 * (x div 16) + x mod 16" by simp
  moreover have "0 \<le> x mod 16" "x mod 16 < 16" by simp_all
  ultimately show ?thesis by linarith
qed

lemma div16_unique: "16 * q \<le> (x::int) \<Longrightarrow> x < 16 * q + 16 \<Longrightarrow> x div 16 = q"
  using div16_bounds [of x] by linarith

lemma axis_cover:
  fixes a w i cx lo hi1 lmin lmax nmin :: int
  assumes d: "lo = a div 16" "hi1 = (a + w - 1) div 16 + 1"
      "lmin = (if cx = lo then a - 16 * lo else 0)"
      "lmax = (if cx = hi1 - 1 then a + w - 16 * hi1 + 16 else 16)"
      "nmin = lmin + 16 * cx - a"
    and i: "0 \<le> i" "i < w"
    and c: "lo \<le> cx" "cx \<le> hi1 - 1"
  shows "(nmin \<le> i \<and> i < nmin + (lmax - lmin)) \<longleftrightarrow> cx = (a + i) div 16"
    and "0 \<le> lmin \<and> lmin \<le> lmax \<and> lmax \<le> 16"
proof -
  define q where "q = (a + i) div 16"
  define h where "h = (a + w - 1) div 16"
  have q: "16 * q \<le> a + i" "a + i < 16 * q + 16"
    unfolding q_def using div16_bounds [of "a + i"] by simp_all
  have lo: "16 * lo \<le> a" "a < 16 * lo + 16"
    unfolding d using div16_bounds [of a] by simp_all
  have hi: "16 * h \<le> a + w - 1" "a + w - 1 < 16 * h + 16"
    unfolding h_def using div16_bounds [of "a + w - 1"] by simp_all
  have h1: "hi1 = h + 1"
    by (simp add: d h_def)
  show "(nmin \<le> i \<and> i < nmin + (lmax - lmin)) \<longleftrightarrow> cx = (a + i) div 16"
    unfolding q_def [symmetric] d(3,4,5) h1
    using q lo hi i c [unfolded h1]
    by (auto split: if_splits)
  show "0 \<le> lmin \<and> lmin \<le> lmax \<and> lmax \<le> 16"
    unfolding d(3,4) h1
    using lo hi i c [unfolded h1]
    by (auto split: if_splits)
qed

lemma axis_clip:
  fixes a w i cx lo hi1 lmin lmax nmin :: int
  assumes d: "lo = a div 16" "hi1 = (a + w - 1) div 16 + 1"
      "lmin = (if cx = lo then a - 16 * lo else 0)"
      "lmax = (if cx = hi1 - 1 then a + w - 16 * hi1 + 16 else 16)"
      "nmin = lmin + 16 * cx - a"
    and c: "lo \<le> cx" "cx \<le> hi1 - 1"
  shows "lmin = max a (16 * cx) - 16 * cx"
    and "lmax = min (a + w) (16 * cx + 16) - 16 * cx"
    and "nmin = max a (16 * cx) - a"
    and "nmin \<le> i \<and> i < nmin + (lmax - lmin) \<longrightarrow> 0 \<le> i \<and> i < w"
proof -
  define h where "h = (a + w - 1) div 16"
  have lo: "16 * lo \<le> a" "a < 16 * lo + 16"
    unfolding d using div16_bounds [of a] by simp_all
  have hi: "16 * h \<le> a + w - 1" "a + w - 1 < 16 * h + 16"
    unfolding h_def using div16_bounds [of "a + w - 1"] by simp_all
  have h1: "hi1 = h + 1"
    by (simp add: d h_def)
  show 1: "lmin = max a (16 * cx) - 16 * cx"
    unfolding d(3) using lo c by (auto simp: max_def)
  show 2: "lmax = min (a + w) (16 * cx + 16) - 16 * cx"
    unfolding d(4) h1 using hi c [unfolded h1] by (auto simp: min_def)
  show 3: "nmin = max a (16 * cx) - a"
    unfolding d(5) 1 by simp
  show "nmin \<le> i \<and> i < nmin + (lmax - lmin) \<longrightarrow> 0 \<le> i \<and> i < w"
    unfolding 1 2 3 by (auto simp: max_def min_def split: if_splits)
qed

lemma axis_range:
  fixes a w i :: int
  assumes "0 \<le> i" "i < w"
  shows "a div 16 \<le> (a + i) div 16 \<and> (a + i) div 16 \<le> (a + w - 1) div 16 + 1 - 1"
  using assms by (auto intro!: zdiv_mono1)

lemma set_chunk_coords:
  "set (chunk_coords box)
     = {getMincx box..getMaxcx box - 1} \<times> {getMincz box..getMaxcz box - 1}"
  by (simp add: chunk_coords_def)

lemma distinct_chunk_coords: "distinct (chunk_coords box)"
  by (simp add: chunk_coords_def distinct_product)

lemma length_chunk_coords:
  "length (chunk_coords box)
     = nat (getMaxcx box - getMincx box) * nat (getMaxcz box - getMincz box)"
  by (simp add: chunk_coords_def)

lemma slices_at_props:
  assumes i: "0 \<le> i" "i < getWidth box" and j: "0 \<le> j" "j < getLength box"
    and p: "(cx, cz) \<in> set (chunk_coords box)"
  shows "covers (slices_at box cx cz) i j
           \<longleftrightarrow> (cx, cz) = (drop_bit 4 (getMinx box + i), drop_bit 4 (getMinz box + j))"
    and "in_chunk (slices_at box cx cz)"
    and "sliceY (slices_at box cx cz) = (getMiny box, getMaxy box)"
proof -
  obtain a b c where o: "origin box = (a, b, c)" by (cases "origin box")
  obtain w h l where s: "bsize box = (w, h, l)" by (cases "bsize box")
  define lox where "lox = a div 16"
  define hix where "hix = (a + w - 1) div 16 + 1"
  define lminx where "lminx = (if cx = lox then a - 16 * lox else 0)"
  define lmaxx where "lmaxx = (if cx = hix - 1 then a + w - 16 * hix + 16 else 16)"
  define nminx where "nminx = lminx + 16 * cx - a"
  define loz where "loz = c div 16"
  define hiz where "hiz = (c + l - 1) div 16 + 1"
  define lminz where "lminz = (if cz = loz then c - 16 * loz else 0)"
  define lmaxz where "lmaxz = (if cz = hiz - 1 then c + l - 16 * hiz + 16 else 16)"
  define nminz where "nminz = lminz + 16 * cz - c"
  have e: "slices_at box cx cz = (((lminx, lmaxx), (lminz, lmaxz), (b, b + h)), (nminx, 0, nminz))"
    using o s
    by (simp add: slices_at_def Let_def getMinx_def getMiny_def getMinz_def getMaxx_def getMaxy_def
        getMaxz_def getMincx_def getMaxcx_def getMincz_def getMaxcz_def getWidth_def getLength_def
        drop_bit_eq_div push_bit_eq_mult lox_def hix_def lminx_def lmaxx_def nminx_def
        loz_def hiz_def lminz_def lmaxz_def nminz_def mult.commute)
  have i': "0 \<le> i" "i < w" and j': "0 \<le> j" "j < l"
    using i j s by (simp_all add: getWidth_def getLength_def)
  have cx: "lox \<le> cx" "cx \<le> hix - 1" and cz: "loz \<le> cz" "cz \<le> hiz - 1"
    using p o s unfolding set_chunk_coords
    by (simp_all add: getMinx_def getMinz_def getMincx_def getMaxcx_def getMincz_def getMaxcz_def
        getWidth_def getLength_def drop_bit_eq_div lox_def hix_def loz_def hiz_def)
  note X = axis_cover [OF lox_def hix_def lminx_def lmaxx_def nminx_def i' cx]
  note Z = axis_cover [OF loz_def hiz_def lminz_def lmaxz_def nminz_def j' cz]
  show "covers (slices_at box cx cz) i j
           \<longleftrightarrow> (cx, cz) = (drop_bit 4 (getMinx box + i), drop_bit 4 (getMinz box + j))"
    using X(1) Z(1) o by (auto simp: e covers_def getMinx_def getMinz_def drop_bit_eq_div)
  show "in_chunk (slices_at box cx cz)"
    using X(2) Z(2) by (simp add: e in_chunk_def)
  show "sliceY (slices_at box cx cz) = (getMiny box, getMaxy box)"
    using o s by (simp add: e sliceY_def getMiny_def getMaxy_def)
qed

lemma slices_at_clip:
  assumes p: "(cx, cz) \<in> set (chunk_coords box)"
  shows "slices_at box cx cz = clipped_piece box cx cz"
    and "covers (slices_at box cx cz) i j
           \<longrightarrow> 0 \<le> i \<and> i < getWidth box \<and> 0 \<le> j \<and> j < getLength box"
proof -
  obtain a b c where o: "origin box = (a, b, c)" by (cases "origin box")
  obtain w h l where s: "bsize box = (w, h, l)" by (cases "bsize box")
  define lox where "lox = a div 16"
  define hix where "hix = (a + w - 1) div 16 + 1"
  define lminx where "lminx = (if cx = lox then a - 16 * lox else 0)"
  define lmaxx where "lmaxx = (if cx = hix - 1 then a + w - 16 * hix + 16 else 16)"
  define nminx where "nminx = lminx + 16 * cx - a"
  define loz where "loz = c div 16"
  define hiz where "hiz = (c + l - 1) div 16 + 1"
  define lminz where "lminz = (if cz = loz then c - 16 * loz else 0)"
  define lmaxz where "lmaxz = (if cz = hiz - 1 then c + l - 16 * hiz + 16 else 16)"
  define nminz where "nminz = lminz + 16 * cz - c"
  have e: "slices_at box cx cz = (((lminx, lmaxx), (lminz, lmaxz), (b, b + h)), (nminx, 0, nminz))"
    using o s
    by (simp add: slices_at_def Let_def getMinx_def getMiny_def getMinz_def getMaxx_def getMaxy_def
        getMaxz_def getMincx_def getMaxcx_def getMincz_def getMaxcz_def getWidth_def getLength_def
        drop_bit_eq_div push_bit_eq_mult lox_def hix_def lminx_def lmaxx_def nminx_def
        loz_def hiz_def lminz_def lmaxz_def nminz_def mult.commute)
  have cx: "lox \<le> cx" "cx \<le> hix - 1" and cz: "loz \<le> cz" "cz \<le> hiz - 1"
    using p o s unfolding set_chunk_coords
    by (simp_all add: getMinx_def getMinz_def getMincx_def getMaxcx_def getMincz_def getMaxcz_def
        getWidth_def getLength_def drop_bit_eq_div lox_def hix_def loz_def hiz_def)
  note X = axis_clip [OF lox_def hix_def lminx_def lmaxx_def nminx_def cx]
  note Z = axis_clip [OF loz_def hiz_def lminz_def lmaxz_def nminz_def cz]
  show "slices_at box cx cz = clipped_piece box cx cz"
    unfolding e X(1,2,3) Z(1,2,3) using o s
    by (simp add: clipped_piece_def Let_def getMinx_def getMiny_def getMinz_def getMaxx_def
        getMaxy_def getMaxz_def)
  show "covers (slices_at box cx cz) i j
           \<longrightarrow> 0 \<le> i \<and> i < getWidth box \<and> 0 \<le> j \<and> j < getLength box"
    using X(4) [of i] Z(4) [of j] s by (simp add: e covers_def getWidth_def getLength_def)
qed

lemma decompress_compressedTag:
  "decompress cdc c = Inr c' \<Longrightarrow> compressedTag c' = compressedTag c"
  by (auto simp: decompress_def unpackChunkData_def Let_def
      split: option.splits sum.splits if_splits prod.splits)

lemma load_compressedTag: "load fs cdc c = Inr c' \<Longrightarrow> compressedTag c' \<noteq> None"
  by (auto simp: load_def split: option.splits sum.splits if_splits
      dest!: decompress_compressedTag)

lemma load_again:
  "compressedTag c \<noteq> None \<Longrightarrow> root_tag c \<noteq> None \<Longrightarrow> load fs cdc c = Inr c"
  by (auto simp: load_def)

lemma fetch_absent:
  "presentChunks w (cx, cz) = None \<Longrightarrow> blocksForChunk cdc w cx cz = Inl ChunkNotPresent"
  by (simp add: blocksForChunk_def arrayForChunk_def getChunk_def)

lemma fetch_present:
  assumes p: "presentChunks w (cx, cz) = Some c" and f: "fetchable cdc (files w) c"
  shows "\<exists>a c2. blocksForChunk cdc w cx cz
             = Inr (a, w\<lparr>presentChunks := (presentChunks w)((cx, cz) \<mapsto> c2)\<rparr>)
     \<and> getChunk cdc (w\<lparr>presentChunks := (presentChunks w)((cx, cz) \<mapsto> c2)\<rparr>) cx cz
             = Inr (c2, w\<lparr>presentChunks := (presentChunks w)((cx, cz) \<mapsto> c2)\<rparr>)"
proof -
  from f obtain c1 a c2 where
    l: "load (files w) cdc c = Inr c1" and g: "getProp Blocks cdc c1 = Inr (a, c2)"
    by (auto simp: fetchable_def split: sum.splits)
  have ct: "compressedTag c2 \<noteq> None"
  proof -
    from g obtain d where "decompress cdc c1 = Inr d" "c2 = d"
      by (auto simp: getProp_def split: sum.splits option.splits)
    with decompress_compressedTag [of cdc c1 d] load_compressedTag [OF l] show ?thesis by simp
  qed
  have rt: "root_tag c2 \<noteq> None"
    using getProp_root [OF g] .
  define w1 where "w1 = w\<lparr>presentChunks := (presentChunks w)((cx, cz) \<mapsto> c2)\<rparr>"
  have b: "blocksForChunk cdc w cx cz = Inr (a, w1)"
    using p l g by (simp add: blocksForChunk_def arrayForChunk_def getChunk_def w1_def)
  have "getChunk cdc w1 cx cz = Inr (c2, w1)"
    using load_again [OF ct rt] by (simp add: getChunk_def w1_def)
  with b show ?thesis
    unfolding w1_def by blast
qed

lemma slices_loop_ok:
  assumes "distinct ps"
    and "\<forall>p \<in> set ps. \<forall>c. presentChunks w p = Some c \<longrightarrow> fetchable cdc (files w) c"
  shows "\<exists>ys w'. slices_loop cdc box ps w = Inr (ys, w')
     \<and> map snd ys = map (\<lambda>(cx, cz). slices_at box cx cz)
                        (filter (\<lambda>p. p \<in> dom (presentChunks w)) ps)
     \<and> map (\<lambda>y. Some (fst y)) ys
           = map (presentChunks w') (filter (\<lambda>p. p \<in> dom (presentChunks w)) ps)
     \<and> files w' = files w \<and> dom (presentChunks w') = dom (presentChunks w)
     \<and> (\<forall>p. p \<notin> set ps \<longrightarrow> presentChunks w' p = presentChunks w p)"
  using assms
proof (induction ps arbitrary: w)
  case Nil
  then show ?case by simp
next
  case (Cons p ps)
  obtain cx cz where p: "p = (cx, cz)" by (cases p)
  show ?case
  proof (cases "presentChunks w (cx, cz)")
    case None
    from Cons.prems have d: "distinct ps"
      and f: "\<forall>q \<in> set ps. \<forall>c. presentChunks w q = Some c \<longrightarrow> fetchable cdc (files w) c"
      by simp_all
    from Cons.IH [OF d f] obtain ys w' where
      r: "slices_loop cdc box ps w = Inr (ys, w')"
        "map snd ys = map (\<lambda>(cx, cz). slices_at box cx cz)
                        (filter (\<lambda>p. p \<in> dom (presentChunks w)) ps)"
        "files w' = files w" "dom (presentChunks w') = dom (presentChunks w)"
        "\<forall>q. q \<notin> set ps \<longrightarrow> presentChunks w' q = presentChunks w q"
        "map (\<lambda>y. Some (fst y)) ys
           = map (presentChunks w') (filter (\<lambda>p. p \<in> dom (presentChunks w)) ps)"
      by blast
    have "(cx, cz) \<notin> dom (presentChunks w)"
      using None by (simp add: domIff)
    with r fetch_absent [OF None, of cdc] show ?thesis
      by (simp add: p)
  next
    case (Some c)
    have fc: "fetchable cdc (files w) c"
      using Cons.prems(2) Some p by simp
    from fetch_present [OF Some fc] obtain a c2 where
      b: "blocksForChunk cdc w cx cz
             = Inr (a, w\<lparr>presentChunks := (presentChunks w)((cx, cz) \<mapsto> c2)\<rparr>)"
      and g: "getChunk cdc (w\<lparr>presentChunks := (presentChunks w)((cx, cz) \<mapsto> c2)\<rparr>) cx cz
             = Inr (c2, w\<lparr>presentChunks := (presentChunks w)((cx, cz) \<mapsto> c2)\<rparr>)"
      by blast
    define w1 where "w1 = w\<lparr>presentChunks := (presentChunks w)((cx, cz) \<mapsto> c2)\<rparr>"
    from Cons.prems have d: "distinct ps" and np: "(cx, cz) \<notin> set ps"
      by (simp_all add: p)
    have f: "\<forall>q \<in> set ps. \<forall>c. presentChunks w1 q = Some c \<longrightarrow> fetchable cdc (files w1) c"
      using Cons.prems(2) np by (auto simp: w1_def)
    from Cons.IH [OF d f] obtain ys w' where
      r: "slices_loop cdc box ps w1 = Inr (ys, w')"
        "map snd ys = map (\<lambda>(cx, cz). slices_at box cx cz)
                        (filter (\<lambda>p. p \<in> dom (presentChunks w1)) ps)"
        "files w' = files w1" "dom (presentChunks w') = dom (presentChunks w1)"
        "\<forall>q. q \<notin> set ps \<longrightarrow> presentChunks w' q = presentChunks w1 q"
        "map (\<lambda>y. Some (fst y)) ys
           = map (presentChunks w') (filter (\<lambda>p. p \<in> dom (presentChunks w1)) ps)"
      by blast
    have fl: "filter (\<lambda>p. p \<in> dom (presentChunks w1)) ps = filter (\<lambda>p. p \<in> dom (presentChunks w)) ps"
      using np by (intro filter_cong) (auto simp: w1_def)
    have dm: "dom (presentChunks w1) = dom (presentChunks w)"
      using Some by (auto simp: w1_def)
    have "slices_loop cdc box (p # ps) w = Inr ((c2, slices_at box cx cz) # ys, w')"
      using b g r(1) by (simp add: p w1_def)
    moreover have "(cx, cz) \<in> dom (presentChunks w)"
      using Some by (simp add: domIff)
    moreover have "presentChunks w' (cx, cz) = Some c2"
      using r(5) np by (simp add: w1_def)
    ultimately show ?thesis
      using r fl dm by (auto simp: p w1_def)
  qed
qed

lemma sliceY_slices_at: "sliceY (slices_at box cx cz) = (getMiny box, getMaxy box)"
  by (simp add: slices_at_def sliceY_def Let_def)

lemma filter_eq_distinct:
  "distinct xs \<Longrightarrow> x \<in> set xs \<Longrightarrow> length (filter (\<lambda>y. y = x) xs) = 1"
  by (induction xs) (auto simp: filter_empty_conv)

lemma target_in_coords:
  assumes "0 \<le> i" "i < getWidth box" "0 \<le> j" "j < getLength box"
  shows "(drop_bit 4 (getMinx box + i), drop_bit 4 (getMinz box + j)) \<in> set (chunk_coords box)"
proof -
  obtain a b c where o: "origin box = (a, b, c)" by (cases "origin box")
  obtain w h l where s: "bsize box = (w, h, l)" by (cases "bsize box")
  have "0 \<le> i" "i < w" "0 \<le> j" "j < l"
    using assms s by (simp_all add: getWidth_def getLength_def)
  from axis_range [OF this(1,2), of a] axis_range [OF this(3,4), of c] show ?thesis
    unfolding set_chunk_coords using o s
    by (simp add: getMinx_def getMinz_def getMincx_def getMaxcx_def getMincz_def getMaxcz_def
        getWidth_def getLength_def drop_bit_eq_div)
qed

lemma pieces_cover_once:
  assumes i: "0 \<le> i" "i < getWidth box" and j: "0 \<le> j" "j < getLength box"
    and m: "map snd ys = map (\<lambda>(cx, cz). slices_at box cx cz) (chunk_coords box)"
  shows "length (filter (\<lambda>y. covers (snd y) i j) ys) = 1"
proof -
  define p0 where "p0 = (drop_bit 4 (getMinx box + i), drop_bit 4 (getMinz box + j))"
  have "length (filter (\<lambda>y. covers (snd y) i j) ys)
      = length (filter (\<lambda>q. covers q i j) (map snd ys))"
    by (simp add: filter_map comp_def)
  also have "\<dots> = length (filter (\<lambda>p. covers (case p of (cx, cz) \<Rightarrow> slices_at box cx cz) i j)
                          (chunk_coords box))"
    by (simp add: m filter_map comp_def)
  also have "filter (\<lambda>p. covers (case p of (cx, cz) \<Rightarrow> slices_at box cx cz) i j) (chunk_coords box)
      = filter (\<lambda>p. p = p0) (chunk_coords box)"
  proof (rule filter_cong [OF refl])
    fix p assume a: "p \<in> set (chunk_coords box)"
    obtain cx cz where p: "p = (cx, cz)" by (cases p)
    from slices_at_props(1) [OF i j a [unfolded p]]
    show "covers (case p of (cx, cz) \<Rightarrow> slices_at box cx cz) i j = (p = p0)"
      by (simp add: p p0_def)
  qed
  also have "length (filter (\<lambda>p. p = p0) (chunk_coords box)) = 1"
    using filter_eq_distinct [OF distinct_chunk_coords] target_in_coords [OF i j]
    by (simp add: p0_def)
  finally show ?thesis .
qed

text \<open>
  Claim C4: let every chunk of the box's footprint that is present in the store be one
  that loads and has its \<open>Blocks\<close> array. Then \<open>getChunkSlices\<close> runs to its end without
  an exception and yields one item for each present coordinate of the footprint, in the
  order of the loops, and none for an absent coordinate. The chunk of an item is the chunk
  object of the store at its coordinate; its slices and offset are the intersection of the
  box with that chunk (\<open>clipped_piece\<close>: the x and z slices clipped to the box at the edge
  chunks, the y slice \<open>[box.miny, box.maxy)\<close>, the offset the start of the intersection in
  the region's frame); every cell that the rectangle of an item covers lies in the region;
  and for a box of positive width and length every x and z slice lies within the chunk
  (0 to 16). If all \<open>N * M\<close> coordinates of the footprint are present, it yields exactly
  \<open>N * M\<close> items and every cell \<open>(i, j)\<close> of the region's x/z extent lies in the rectangle of
  exactly one item: the rectangles tile the region, without overlap and without excess.
\<close>

theorem getChunkSlices_tiles:
  assumes "\<forall>p \<in> set (chunk_coords box). \<forall>c. presentChunks w p = Some c
             \<longrightarrow> fetchable cdc (files w) c"
  shows "\<exists>ys w'. getChunkSlices cdc w box = Inr (ys, w')
     \<and> map snd ys = map (\<lambda>(cx, cz). clipped_piece box cx cz)
                        (filter (\<lambda>p. p \<in> dom (presentChunks w)) (chunk_coords box))
     \<and> map (\<lambda>y. Some (fst y)) ys
           = map (presentChunks w') (filter (\<lambda>p. p \<in> dom (presentChunks w)) (chunk_coords box))
     \<and> (\<forall>y \<in> set ys. sliceY (snd y) = (getMiny box, getMaxy box))
     \<and> (\<forall>y \<in> set ys. \<forall>i j. covers (snd y) i j
            \<longrightarrow> 0 \<le> i \<and> i < getWidth box \<and> 0 \<le> j \<and> j < getLength box)
     \<and> (0 < getWidth box \<and> 0 < getLength box \<longrightarrow> (\<forall>y \<in> set ys. in_chunk (snd y)))
     \<and> (set (chunk_coords box) \<subseteq> dom (presentChunks w) \<longrightarrow>
          length ys = nat (getMaxcx box - getMincx box) * nat (getMaxcz box - getMincz box)
        \<and> (\<forall>i j. 0 \<le> i \<and> i < getWidth box \<and> 0 \<le> j \<and> j < getLength box \<longrightarrow>
              length (filter (\<lambda>y. covers (snd y) i j) ys) = 1))"
proof -
  define ps where "ps = filter (\<lambda>p. p \<in> dom (presentChunks w)) (chunk_coords box)"
  from slices_loop_ok [OF distinct_chunk_coords assms, of box] obtain ys w' where
    r: "getChunkSlices cdc w box = Inr (ys, w')"
    and m: "map snd ys = map (\<lambda>(cx, cz). slices_at box cx cz) ps"
    and ch: "map (\<lambda>y. Some (fst y)) ys = map (presentChunks w') ps"
    unfolding getChunkSlices_def ps_def by blast
  have sub: "set ps \<subseteq> set (chunk_coords box)"
    by (auto simp: ps_def)
  have item: "\<exists>cx cz. (cx, cz) \<in> set (chunk_coords box) \<and> snd y = slices_at box cx cz"
    if "y \<in> set ys" for y
  proof -
    from that have "snd y \<in> set (map snd ys)" by simp
    then show ?thesis
      unfolding m using sub by auto
  qed
  have cl: "map snd ys = map (\<lambda>(cx, cz). clipped_piece box cx cz) ps"
    unfolding m using sub by (auto simp: slices_at_clip(1))
  have sy: "\<forall>y \<in> set ys. sliceY (snd y) = (getMiny box, getMaxy box)"
  proof
    fix y assume "y \<in> set ys"
    from item [OF this] obtain cx cz where "snd y = slices_at box cx cz"
      by blast
    then show "sliceY (snd y) = (getMiny box, getMaxy box)"
      by (simp add: sliceY_slices_at)
  qed
  have ins: "\<forall>y \<in> set ys. \<forall>i j. covers (snd y) i j
            \<longrightarrow> 0 \<le> i \<and> i < getWidth box \<and> 0 \<le> j \<and> j < getLength box"
  proof (intro ballI allI)
    fix y i j assume "y \<in> set ys"
    from item [OF this] obtain cx cz
      where c: "(cx, cz) \<in> set (chunk_coords box)" and e: "snd y = slices_at box cx cz"
      by blast
    from slices_at_clip(2) [OF c, of i j]
    show "covers (snd y) i j \<longrightarrow> 0 \<le> i \<and> i < getWidth box \<and> 0 \<le> j \<and> j < getLength box"
      unfolding e .
  qed
  have inc: "\<forall>y \<in> set ys. in_chunk (snd y)" if pos: "0 < getWidth box \<and> 0 < getLength box"
  proof
    fix y assume "y \<in> set ys"
    from item [OF this] obtain cx cz
      where c: "(cx, cz) \<in> set (chunk_coords box)" and e: "snd y = slices_at box cx cz"
      by blast
    from slices_at_props(2) [OF _ _ _ _ c, of 0 0] pos e show "in_chunk (snd y)"
      by simp
  qed
  have full: "length ys = nat (getMaxcx box - getMincx box) * nat (getMaxcz box - getMincz box)
        \<and> (\<forall>i j. 0 \<le> i \<and> i < getWidth box \<and> 0 \<le> j \<and> j < getLength box \<longrightarrow>
              length (filter (\<lambda>y. covers (snd y) i j) ys) = 1)"
    if all: "set (chunk_coords box) \<subseteq> dom (presentChunks w)"
  proof -
    have "ps = chunk_coords box"
      unfolding ps_def using all by (auto simp: filter_id_conv)
    with m have m': "map snd ys = map (\<lambda>(cx, cz). slices_at box cx cz) (chunk_coords box)"
      by simp
    have "length ys = length (map snd ys)" by simp
    also have "\<dots> = length (chunk_coords box)" unfolding m' by simp
    finally have len: "length ys
        = nat (getMaxcx box - getMincx box) * nat (getMaxcz box - getMincz box)"
      by (simp add: length_chunk_coords)
    have once: "\<forall>i j. 0 \<le> i \<and> i < getWidth box \<and> 0 \<le> j \<and> j < getLength box \<longrightarrow>
              length (filter (\<lambda>y. covers (snd y) i j) ys) = 1"
      using pieces_cover_once [OF _ _ _ _ m'] by blast
    from len once show ?thesis by blast
  qed
  from r cl ch sy ins inc full show ?thesis
    unfolding ps_def by blast
qed

lemma coords_two: "chunk_coords two_chunk_box = [(0, 0), (1, 0)]"
  by (simp add: chunk_coords_def two_chunk_box_def getMincx_def getMaxcx_def getMincz_def
      getMaxcz_def getMinx_def getMinz_def getWidth_def getLength_def drop_bit_eq_div upto.simps)

lemma coords_unaligned: "chunk_coords unaligned_box = [(0, 0), (1, 0)]"
  by (simp add: chunk_coords_def unaligned_box_def getMincx_def getMaxcx_def getMincz_def
      getMaxcz_def getMinx_def getMinz_def getWidth_def getLength_def drop_bit_eq_div upto.simps)

lemma fetchable_air: "fetchable cdc fs (air_chunk s)"
  by (simp add: fetchable_def load_def air_chunk_props)
     (simp add: air_chunk_def new_chunk_def)

lemma fetchable_fresh:
  assumes "root_tag c = None" and "compressedTag c = Some b"
  shows "fetchable fresh_codec fs c"
proof -
  from decompress_fresh [OF assms] obtain t where
    d: "decompress fresh_codec c = Inr (c\<lparr>root_tag := Some t\<rparr>)" and t: "wf_tag t"
    by blast
  from t obtain a where "t Blocks = Some a"
    by (auto simp: wf_tag_def split: option.splits)
  then show ?thesis
    using assms d by (simp add: fetchable_def load_def getProp_def decompress_def)
qed

lemma air_present:
  "presentChunks (air_world s) p = (if p = (0, 0) then Some (air_chunk s) else None)"
  by (simp add: air_world_def one_chunk_world_def)

theorem getChunkSlices_tiles_witness:
  "(\<exists>ys w'. getChunkSlices rejecting_codec (air_world 0) two_chunk_box = Inr (ys, w')
       \<and> map snd ys = [(((0, 16), (0, 16), (0, 128)), (0, 0, 0))])
   \<and> (\<exists>ys w'. getChunkSlices fresh_codec two_chunk_world unaligned_box = Inr (ys, w')
       \<and> map snd ys = [(((5, 16), (3, 13), (0, 128)), (0, 0, 0)),
                        (((0, 9), (3, 13), (0, 128)), (11, 0, 0))]
       \<and> length (filter (\<lambda>y. covers (snd y) 12 4) ys) = 1)"
proof -
  have f: "\<forall>p \<in> set (chunk_coords b). \<forall>c. presentChunks (air_world 0) p = Some c
             \<longrightarrow> fetchable rejecting_codec (files (air_world 0)) c" for b
    by (simp add: air_present fetchable_air)
  have s: "clipped_piece two_chunk_box 0 0 = (((0, 16), (0, 16), (0, 128)), (0, 0, 0))"
    by (simp add: clipped_piece_def two_chunk_box_def Let_def getMinx_def getMinz_def getMiny_def
      getMaxx_def getMaxy_def getMaxz_def)
  have d: "filter (\<lambda>p. p \<in> dom (presentChunks (air_world 0))) (chunk_coords two_chunk_box) = [(0, 0)]"
    by (simp add: coords_two air_present dom_def)
  have a: "\<exists>ys w'. getChunkSlices rejecting_codec (air_world 0) two_chunk_box = Inr (ys, w')
       \<and> map snd ys = [(((0, 16), (0, 16), (0, 128)), (0, 0, 0))]"
    using getChunkSlices_tiles [OF f [of two_chunk_box]] unfolding d by (auto simp: s)
  have g: "\<forall>p \<in> set (chunk_coords unaligned_box). \<forall>c. presentChunks two_chunk_world p = Some c
             \<longrightarrow> fetchable fresh_codec (files two_chunk_world) c"
    by (auto simp: coords_unaligned two_chunk_world_def created_chunk_def new_chunk_def
        intro!: fetchable_fresh)
  have sub: "set (chunk_coords unaligned_box) \<subseteq> dom (presentChunks two_chunk_world)"
    by (simp add: coords_unaligned two_chunk_world_def)
  have d2: "filter (\<lambda>p. p \<in> dom (presentChunks two_chunk_world)) (chunk_coords unaligned_box)
      = [(0, 0), (1, 0)]"
    by (simp add: coords_unaligned two_chunk_world_def)
  have s2: "clipped_piece unaligned_box 0 0 = (((5, 16), (3, 13), (0, 128)), (0, 0, 0))"
      "clipped_piece unaligned_box 1 0 = (((0, 9), (3, 13), (0, 128)), (11, 0, 0))"
    by (simp_all add: clipped_piece_def unaligned_box_def Let_def getMinx_def getMinz_def
      getMiny_def getMaxx_def getMaxy_def getMaxz_def)
  have r: "(0::int) \<le> 12 \<and> 12 < getWidth unaligned_box \<and> (0::int) \<le> 4 \<and> 4 < getLength unaligned_box"
    by (simp add: unaligned_box_def getWidth_def getLength_def)
  from getChunkSlices_tiles [OF g] obtain ys w' where
    y: "getChunkSlices fresh_codec two_chunk_world unaligned_box = Inr (ys, w')"
      "map snd ys = map (\<lambda>(cx, cz). clipped_piece unaligned_box cx cz)
          (filter (\<lambda>p. p \<in> dom (presentChunks two_chunk_world)) (chunk_coords unaligned_box))"
      "set (chunk_coords unaligned_box) \<subseteq> dom (presentChunks two_chunk_world) \<longrightarrow>
          length ys = nat (getMaxcx unaligned_box - getMincx unaligned_box)
                        * nat (getMaxcz unaligned_box - getMincz unaligned_box)
        \<and> (\<forall>i j. 0 \<le> i \<and> i < getWidth unaligned_box \<and> 0 \<le> j \<and> j < getLength unaligned_box \<longrightarrow>
              length (filter (\<lambda>y. covers (snd y) i j) ys) = 1)"
    by blast
  have "length (filter (\<lambda>y. covers (snd y) 12 4) ys) = 1"
    using y(3) sub r by blast
  moreover have "map snd ys = [(((5, 16), (3, 13), (0, 128)), (0, 0, 0)),
                        (((0, 9), (3, 13), (0, 128)), (11, 0, 0))]"
    using y(2) unfolding d2 by (simp add: s2)
  ultimately have b: "\<exists>ys w'. getChunkSlices fresh_codec two_chunk_world unaligned_box = Inr (ys, w')
       \<and> map snd ys = [(((5, 16), (3, 13), (0, 128)), (0, 0, 0)),
                        (((0, 9), (3, 13), (0, 128)), (11, 0, 0))]
       \<and> length (filter (\<lambda>y. covers (snd y) 12 4) ys) = 1"
    using y(1) by (intro exI [of _ ys] exI [of _ w']) simp
  from a b show ?thesis by blast
qed

section \<open>Light relaxation\<close>

lemma idx3_decode:
  assumes "x < 16" "z < 16" "y < 128"
  shows "((x * 16 + z) * 128 + y) div (16 * 128) = x"
    and "((x * 16 + z) * 128 + y) div 128 mod 16 = z"
    and "((x * 16 + z) * 128 + y) mod 128 = (y::nat)"
proof -
  have a: "((x * 16 + z) * 128 + y) div 128 = x * 16 + z"
    using assms by simp
  have "((x * 16 + z) * 128 + y) div (128 * 16) = (x * 16 + z) div 16"
    unfolding div_mult2_eq a ..
  then show "((x * 16 + z) * 128 + y) div (16 * 128) = x"
    using assms by simp
  show "((x * 16 + z) * 128 + y) div 128 mod 16 = z"
    unfolding a using assms by simp
  have "((x * 16 + z) * 128 + y) mod 128 = y mod 128"
    by (metis mod_mult_self3)
  then show "((x * 16 + z) * 128 + y) mod 128 = y"
    using assms by simp
qed

lemma tabulate3_shape: "unpacked_shape (tabulate3 f)"
  by (simp add: tabulate3_def unpacked_shape_def)

lemma at3_tabulate3:
  assumes "x < 16" "z < 16" "y < 128"
  shows "at3 (tabulate3 f) x z y = f x z y"
proof -
  have "(x * 16 + z) * 128 + y < 16 * 16 * 128"
    using idx3_bound [OF assms] by simp
  then show ?thesis
    using idx3_decode [OF assms]
    by (simp add: at3_def tabulate3_def del: upt_Suc)
qed

lemma tabulate3_cells:
  assumes "\<And>x z y. x < 16 \<Longrightarrow> z < 16 \<Longrightarrow> y < 128 \<Longrightarrow> P (f x z y)"
  shows "\<forall>v \<in> set (data (tabulate3 f)). P v"
proof
  fix v assume "v \<in> set (data (tabulate3 f))"
  then obtain i where i: "i < 16 * 16 * 128"
    and v: "v = f (i div (16 * 128)) (i div 128 mod 16) (i mod 128)"
    by (auto simp: tabulate3_def)
  have "i div (16 * 128) < 16"
    using i by (simp add: less_mult_imp_div_less)
  moreover have "i div 128 mod 16 < 16" "i mod 128 < 128"
    by simp_all
  ultimately show "P v"
    unfolding v by (rule assms)
qed

lemma at3_in_set:
  assumes "unpacked_shape a" "x < 16" "z < 16" "y < 128"
  shows "at3 a x z y \<in> set (data a)"
proof -
  have "(x * 16 + z) * 128 + y < length (data a)"
    using idx3_bound [OF assms(2-4)] assms(1) by (simp add: unpacked_shape_def)
  then show ?thesis
    using assms(1) by (simp add: at3_def unpacked_shape_def)
qed

lemma clamp15_le: "clamp15 v \<le> 15"
  by (simp add: clamp15_def not_less)

lemma raise_light_ok: "light_ok a \<Longrightarrow> light_ok (raise_light inside nl a)"
proof -
  assume a: "light_ok a"
  then have s: "unpacked_shape a" and c: "\<forall>v \<in> set (data a). v \<le> 15"
    by (simp_all add: light_ok_def)
  have "\<forall>v \<in> set (data (raise_light inside nl a)). v \<le> 15"
    unfolding raise_light_def
  proof (rule tabulate3_cells)
    fix x z y :: nat
    assume "x < 16" "z < 16" "y < 128"
    then have "at3 a x z y \<le> 15"
      using at3_in_set [OF s] c by blast
    then show "(if inside x z y then max (at3 a x z y) (clamp15 (nl x z y)) else at3 a x z y) \<le> 15"
      using clamp15_le [of "nl x z y"] by (simp add: max_def)
  qed
  then show ?thesis
    by (simp add: light_ok_def raise_light_def tabulate3_shape)
qed

lemma raise_light_shape: "unpacked_shape (raise_light inside nl a)"
  by (simp add: raise_light_def tabulate3_shape)

lemma ready_load: "ready c \<Longrightarrow> load fs cdc c = Inr c"
proof -
  assume "ready c"
  then have "compressedTag c \<noteq> None" "root_tag c \<noteq> None"
    by (auto simp: ready_def loaded_def split: option.splits)
  then show ?thesis by (rule load_again)
qed

lemma ready_loadable: "ready c \<Longrightarrow> loadable cdc fs c"
  by (simp add: loadable_def ready_load) (simp add: ready_def)

lemma loadable_load:
  assumes "loadable cdc fs c"
  shows "\<exists>c1. load fs cdc c = Inr c1 \<and> ready c1"
proof (cases "load fs cdc c")
  case (Inl e)
  with assms show ?thesis by (simp add: loadable_def)
next
  case (Inr c1)
  with assms load_compressedTag [OF Inr] show ?thesis
    by (simp add: loadable_def ready_def)
qed

lemma preservesD:
  "preserves cdc Z R D s \<Longrightarrow> relax_inv cdc Z R D st
     \<Longrightarrow> \<exists>st'. s st = Inr st' \<and> relax_inv cdc Z R D st'"
  unfolding preserves_def by (cases "s st") auto

lemma preservesI:
  assumes "\<And>st. relax_inv cdc Z R D st \<Longrightarrow> \<exists>st'. s st = Inr st' \<and> relax_inv cdc Z R D st'"
  shows "preserves cdc Z R D s"
  unfolding preserves_def using assms by fastforce

lemma inv_chunk:
  assumes "relax_inv cdc Z R D st" and "p \<in> R"
  obtains c t where "presentChunks (lworld st) p = Some c" "root_tag c = Some t" "wf_tag t"
    "compressedTag c \<noteq> None"
proof -
  from assms obtain c where c: "presentChunks (lworld st) p = Some c" and r: "ready c"
    unfolding relax_inv_def by blast
  from r have "loaded c" "compressedTag c \<noteq> None"
    by (simp_all add: ready_def)
  then obtain t where "root_tag c = Some t" "wf_tag t"
    by (auto simp: loaded_def split: option.splits)
  with c \<open>compressedTag c \<noteq> None\<close> show ?thesis
    using that by blast
qed

lemma relax_inv_weaken:
  assumes "relax_inv cdc Z R' D st" and "D \<subseteq> R" and "R \<subseteq> R'"
  shows "relax_inv cdc Z R D st"
  using assms unfolding relax_inv_def by blast

lemma valid_ref_mono: "valid_ref R r \<Longrightarrow> R \<subseteq> R' \<Longrightarrow> valid_ref R' r"
  by (cases r) (auto simp: valid_ref_def)

lemma wf_tag_arrays:
  assumes "wf_tag t" and "key = Blocks \<or> key = BlockLight \<or> key = SkyLight"
  shows "\<exists>a. t key = Some a \<and> unpacked_shape a"
  using assms by (auto simp: wf_tag_def split: option.splits)

lemma get_array_inv:
  assumes "relax_inv cdc Z R D st" and "p \<in> R"
    and "key = Blocks \<or> key = BlockLight \<or> key = SkyLight"
  shows "\<exists>a. get_array (lworld st) p key = Inr a \<and> unpacked_shape a"
proof -
  from inv_chunk [OF assms(1,2)] obtain c t where
    c: "presentChunks (lworld st) p = Some c" "root_tag c = Some t" "wf_tag t"
    by blast
  from wf_tag_arrays [OF c(3) assms(3)] obtain a where "t key = Some a" "unpacked_shape a"
    by blast
  with c show ?thesis
    by (simp add: get_array_def)
qed

lemma get_array_light_ok:
  assumes "chunk_light_ok w p key" and "get_array w p key = Inr a"
  shows "light_ok a"
  using assms
  by (auto simp: chunk_light_ok_def get_array_def array_of_def split: option.splits if_splits)

lemma wf_tag_update:
  assumes "wf_tag t" and "unpacked_shape a" and "key = BlockLight \<or> key = SkyLight"
  shows "wf_tag (t(key \<mapsto> a))"
  using assms by (auto simp: wf_tag_def)

lemma put_array_inv:
  assumes inv: "relax_inv cdc Z R D st" and p: "p \<in> R"
    and k: "light = BlockLight \<or> light = SkyLight"
    and s: "unpacked_shape a" and ok: "p \<in> D \<Longrightarrow> light_ok a"
  shows "relax_inv cdc Z R D (st\<lparr>lworld := put_array (lworld st) p light a\<rparr>)"
proof -
  from inv_chunk [OF inv p] obtain c t where
    c: "presentChunks (lworld st) p = Some c" "root_tag c = Some t" "wf_tag t"
       "compressedTag c \<noteq> None"
    by blast
  define c' where "c' = setProp light a c"
  define w' where "w' = put_array (lworld st) p light a"
  have pc: "presentChunks w' = (presentChunks (lworld st))(p \<mapsto> c')"
    using c(1) by (simp add: w'_def put_array_def c'_def)
  have fs: "files w' = files (lworld st)"
    by (simp add: w'_def put_array_def)
  have rt: "root_tag c' = Some (t(light \<mapsto> a))" and ct: "compressedTag c' \<noteq> None"
    using c by (simp_all add: c'_def setProp_def)
  have l: "ready c'"
    using rt ct wf_tag_update [OF c(3) s k] by (simp add: loaded_def ready_def)
  have zn: "\<forall>q \<in> Z. \<forall>d. presentChunks w' q = Some d \<longrightarrow> loadable cdc (files w') d"
    using inv ready_loadable [OF l] by (auto simp: pc fs relax_inv_def)
  have rd: "\<forall>q \<in> R. \<exists>d. presentChunks w' q = Some d \<and> ready d"
    using inv l by (auto simp: pc relax_inv_def)
  have oth: "array_of c' key = array_of c key" if "key \<noteq> light" for key
    using that c(2) rt by (simp add: array_of_def)
  have same: "array_of c' light = Some a"
    using rt by (simp add: array_of_def)
  have li: "chunk_light_ok w' q key" if q: "q \<in> D" and o: "chunk_light_ok (lworld st) q key" for q key
  proof (cases "q = p")
    case False
    with o show ?thesis by (simp add: chunk_light_ok_def pc)
  next
    case True
    show ?thesis
    proof (cases "key = light")
      case True
      with \<open>q = p\<close> same ok q show ?thesis by (simp add: chunk_light_ok_def pc)
    next
      case False
      with \<open>q = p\<close> oth [OF False] o c(1) show ?thesis by (simp add: chunk_light_ok_def pc)
    qed
  qed
  have "unpacked_shape (zero_buffer st)" "D \<subseteq> R"
    using inv by (simp_all add: relax_inv_def)
  moreover have "\<forall>q \<in> D. chunk_light_ok w' q BlockLight \<and> chunk_light_ok w' q SkyLight"
    using inv li by (simp add: relax_inv_def)
  ultimately show ?thesis
    using zn rd unfolding w'_def [symmetric]
    by (simp add: relax_inv_def)
qed

lemma preserves_relax:
  assumes k: "light = BlockLight \<or> light = SkyLight"
    and v: "valid_ref R dest"
    and n: "\<And>st. relax_inv cdc Z R D st \<Longrightarrow> \<exists>nl. newlight st = Inr nl"
  shows "preserves cdc Z R D (relax light dest inside newlight)"
  unfolding preserves_def
proof (intro allI impI)
  fix st assume inv: "relax_inv cdc Z R D st"
  from n [OF inv] obtain nl where nl: "newlight st = Inr nl" by blast
  show "case relax light dest inside newlight st of Inl e \<Rightarrow> False | Inr st' \<Rightarrow> relax_inv cdc Z R D st'"
  proof (cases dest)
    case Zero
    have z: "unpacked_shape (zero_buffer st)"
      using inv by (simp add: relax_inv_def)
    have "relax_inv cdc Z R D (st\<lparr>zero_buffer := raise_light inside nl (zero_buffer st)\<rparr>)"
      using inv raise_light_shape by (simp add: relax_inv_def)
    then show ?thesis
      using nl z Zero by (simp add: relax_def ref_light_def put_light_def)
  next
    case (Present p)
    with v have p: "p \<in> R" by (simp add: valid_ref_def)
    from k have k': "light = Blocks \<or> light = BlockLight \<or> light = SkyLight" by blast
    from get_array_inv [OF inv p k'] obtain a where
      a: "get_array (lworld st) p light = Inr a" "unpacked_shape a"
      by blast
    have ok: "light_ok (raise_light inside nl a)" if "p \<in> D"
    proof -
      from inv that k have "chunk_light_ok (lworld st) p light"
        by (auto simp: relax_inv_def)
      from get_array_light_ok [OF this a(1)] show ?thesis
        by (rule raise_light_ok)
    qed
    from put_array_inv [OF inv p k raise_light_shape ok]
    show ?thesis
      using nl a Present by (simp add: relax_def ref_light_def put_light_def)
  qed
qed

lemma ref_light_inv:
  assumes "relax_inv cdc Z R D st" and "valid_ref R r"
    and "key = Blocks \<or> key = BlockLight \<or> key = SkyLight"
  shows "\<exists>a. ref_light st key r = Inr a"
proof (cases r)
  case Zero
  with assms(1) show ?thesis by (simp add: ref_light_def relax_inv_def)
next
  case (Present p)
  with assms(2) have "p \<in> R" by (simp add: valid_ref_def)
  from get_array_inv [OF assms(1) this assms(3)] Present show ?thesis
    by (auto simp: ref_light_def)
qed

lemma ref_blocks_inv:
  assumes "relax_inv cdc Z R D st" and "valid_ref R r"
  shows "\<exists>a. ref_blocks st r = Inr a"
  using ref_light_inv [OF assms, of Blocks] by (simp add: ref_blocks_def ref_light_def)

lemma outward_inv:
  assumes "relax_inv cdc Z R D st" and "pos \<in> R" and "valid_ref R nc"
    and "light = BlockLight \<or> light = SkyLight"
  shows "\<exists>nl. outward tbl light pos nc src st = Inr nl"
proof -
  have "valid_ref R (Present pos)" using assms(2) by (simp add: valid_ref_def)
  from ref_light_inv [OF assms(1) this, of light] assms(4)
  obtain cl where "ref_light st light (Present pos) = Inr cl" by blast
  moreover from ref_blocks_inv [OF assms(1,3)] obtain nb where "ref_blocks st nc = Inr nb" by blast
  ultimately show ?thesis by (simp add: outward_def)
qed

lemma inward_inv:
  assumes "relax_inv cdc Z R D st" and "valid_ref R from"
    and "light = BlockLight \<or> light = SkyLight"
  shows "\<exists>nl. inward chunkLa light from src st = Inr nl"
proof -
  from ref_light_inv [OF assms(1,2), of light] assms(3)
  obtain fl where "ref_light st light from = Inr fl" by blast
  then show ?thesis by (simp add: inward_def)
qed

lemma preserves_reset_zero: "preserves cdc Z R D reset_zero"
  by (simp add: preserves_def reset_zero_def relax_inv_def unpacked_shape_def)

lemma preserves_run: "\<forall>s \<in> set ss. preserves cdc Z R D s \<Longrightarrow> preserves cdc Z R D (run ss)"
proof (induction ss)
  case Nil
  then show ?case by (simp add: preserves_def)
next
  case (Cons s ss)
  then have s: "preserves cdc Z R D s" and r: "preserves cdc Z R D (run ss)" by simp_all
  show ?case
  proof (rule preservesI)
    fix st assume "relax_inv cdc Z R D st"
    from preservesD [OF s this] obtain st1 where a: "s st = Inr st1" "relax_inv cdc Z R D st1"
      by blast
    from preservesD [OF r a(2)] a(1)
    show "\<exists>st'. run (s # ss) st = Inr st' \<and> relax_inv cdc Z R D st'"
      by simp
  qed
qed

lemma preserves_outward:
  assumes "light = BlockLight \<or> light = SkyLight" and "pos \<in> R" and "valid_ref R nc"
  shows "preserves cdc Z R D (relax light nc inside (outward tbl light pos nc src))"
  using assms by (intro preserves_relax outward_inv) auto

lemma preserves_inward:
  assumes "light = BlockLight \<or> light = SkyLight" and "valid_ref R dest" and "valid_ref R from"
  shows "preserves cdc Z R D (relax light dest inside (inward chunkLa light from src))"
  using assms by (intro preserves_relax inward_inv) auto

lemma preserves_exchanges:
  assumes k: "light = BlockLight \<or> light = SkyLight" and p: "pos \<in> R"
    and v: "valid_ref R xdec" "valid_ref R xinc" "valid_ref R zdec" "valid_ref R zinc"
  shows "\<forall>s \<in> set (exchanges tbl light pos chunkLa xdec xinc zdec zinc). preserves cdc Z R D s"
proof -
  have s: "valid_ref R (Present pos)"
    using p by (simp add: valid_ref_def)
  note O = preserves_outward [OF k p]
  note I = preserves_inward [OF k]
  show ?thesis
    unfolding exchanges_def Let_def
    by (simp add: O v I s preserves_reset_zero)
qed

lemma neighbour_inv:
  assumes inv: "relax_inv cdc Z R D st" and z: "p \<in> Z"
  shows "\<exists>r st' R'. neighbour cdc p st = Inr (r, st') \<and> R \<subseteq> R'
     \<and> relax_inv cdc Z R' D st' \<and> valid_ref R' r"
proof -
  obtain cx cz where p: "p = (cx, cz)" by (cases p)
  define w where "w = lworld st"
  show ?thesis
  proof (cases "presentChunks w (cx, cz)")
    case None
    then have "neighbour cdc p st = Inr (Zero, st)"
      by (simp add: neighbour_def p containsChunk_def domIff w_def)
    moreover have "valid_ref R Zero"
      by (simp add: valid_ref_def)
    ultimately show ?thesis
      using inv by blast
  next
    case (Some c)
    have "loadable cdc (files w) c"
      using inv z Some unfolding relax_inv_def w_def p by blast
    from loadable_load [OF this] obtain c1 where
      l: "load (files w) cdc c = Inr c1" and r1: "ready c1"
      by blast
    define w' where "w' = w\<lparr>presentChunks := (presentChunks w)((cx, cz) \<mapsto> c1)\<rparr>"
    define st' where "st' = st\<lparr>lworld := w'\<rparr>"
    have rt: "root_tag c1 \<noteq> None"
      using r1 by (auto simp: ready_def loaded_def split: option.splits)
    have g: "getChunk cdc w cx cz = Inr (c1, w')"
      using Some l by (simp add: getChunk_def w'_def)
    have n: "neighbour cdc p st = Inr (Present p, st')"
      using Some g rt
      by (simp add: neighbour_def p containsChunk_def domIff w_def [symmetric] st'_def)
    have same: "c1 = c" if "ready c"
      using ready_load [OF that, of "files w" cdc] l by simp
    have zn: "\<forall>q \<in> Z. \<forall>d. presentChunks w' q = Some d \<longrightarrow> loadable cdc (files w') d"
      using inv ready_loadable [OF r1]
      by (auto simp: w'_def relax_inv_def w_def [symmetric])
    have rd: "\<forall>q \<in> insert p R. \<exists>d. presentChunks w' q = Some d \<and> ready d"
      using inv r1 by (auto simp: w'_def relax_inv_def w_def [symmetric] p)
    have li: "chunk_light_ok w' q key" if q: "q \<in> D" and o: "chunk_light_ok w q key" for q key
    proof (cases "q = p")
      case False
      with o show ?thesis by (simp add: chunk_light_ok_def w'_def p)
    next
      case True
      have "q \<in> R"
        using inv q by (auto simp: relax_inv_def)
      with inv Some True have "ready c"
        by (auto simp: relax_inv_def w_def [symmetric] p)
      from same [OF this] o True Some show ?thesis
        by (simp add: chunk_light_ok_def w'_def p)
    qed
    have "unpacked_shape (zero_buffer st')" "D \<subseteq> insert p R"
      using inv by (auto simp: relax_inv_def st'_def)
    moreover have "\<forall>q \<in> D. chunk_light_ok w' q BlockLight \<and> chunk_light_ok w' q SkyLight"
      using inv li by (simp add: relax_inv_def w_def [symmetric])
    ultimately have "relax_inv cdc Z (insert p R) D st'"
      using zn rd by (simp add: relax_inv_def st'_def)
    moreover have "valid_ref (insert p R) (Present p)"
      by (simp add: valid_ref_def)
    moreover have "R \<subseteq> insert p R" by blast
    ultimately show ?thesis
      using n by blast
  qed
qed

lemma preserves_relaxChunk:
  assumes k: "light = BlockLight \<or> light = SkyLight" and p: "pos \<in> D"
    and z: "set (neighbours pos) \<subseteq> Z"
  shows "preserves cdc Z D D (relaxChunk cdc tbl light pos)"
proof (rule preservesI)
  fix st assume inv: "relax_inv cdc Z D D st"
  obtain cx cz where pos: "pos = (cx, cz)" by (cases pos)
  have zs: "(cx - 1, cz) \<in> Z" "(cx + 1, cz) \<in> Z" "(cx, cz - 1) \<in> Z" "(cx, cz + 1) \<in> Z"
    using z by (simp_all add: neighbours_def pos)
  from neighbour_inv [OF inv zs(1)] obtain xdec st1 R1 where
    n1: "neighbour cdc (cx - 1, cz) st = Inr (xdec, st1)" "D \<subseteq> R1"
      "relax_inv cdc Z R1 D st1" "valid_ref R1 xdec" by blast
  from neighbour_inv [OF n1(3) zs(2)] obtain xinc st2 R2 where
    n2: "neighbour cdc (cx + 1, cz) st1 = Inr (xinc, st2)" "R1 \<subseteq> R2"
      "relax_inv cdc Z R2 D st2" "valid_ref R2 xinc" by blast
  from neighbour_inv [OF n2(3) zs(3)] obtain zdec st3 R3 where
    n3: "neighbour cdc (cx, cz - 1) st2 = Inr (zdec, st3)" "R2 \<subseteq> R3"
      "relax_inv cdc Z R3 D st3" "valid_ref R3 zdec" by blast
  from neighbour_inv [OF n3(3) zs(4)] obtain zinc st4 R4 where
    n4: "neighbour cdc (cx, cz + 1) st3 = Inr (zinc, st4)" "R3 \<subseteq> R4"
      "relax_inv cdc Z R4 D st4" "valid_ref R4 zinc" by blast
  have sub: "D \<subseteq> R4" "R1 \<subseteq> R4" "R2 \<subseteq> R4" "R3 \<subseteq> R4"
    using n1(2) n2(2) n3(2) n4(2) by blast+
  have v: "valid_ref R4 xdec" "valid_ref R4 xinc" "valid_ref R4 zdec" "valid_ref R4 zinc"
    using valid_ref_mono [OF n1(4) sub(2)] valid_ref_mono [OF n2(4) sub(3)]
      valid_ref_mono [OF n3(4) sub(4)] n4(4) by blast+
  have p4: "pos \<in> R4"
    using p sub(1) by blast
  from get_array_inv [OF n4(3) p4, of Blocks] obtain blocks where
    b: "get_array (lworld st4) pos Blocks = Inr blocks" by blast
  have "preserves cdc Z R4 D (run (exchanges tbl light pos (\<lambda>x z y. tbl (at3 blocks x z y) + 1)
          xdec xinc zdec zinc))"
    by (rule preserves_run) (rule preserves_exchanges [OF k p4 v])
  from preservesD [OF this n4(3)] obtain st' where
    r: "run (exchanges tbl light pos (\<lambda>x z y. tbl (at3 blocks x z y) + 1)
          xdec xinc zdec zinc) st4 = Inr st'" and i: "relax_inv cdc Z R4 D st'"
    by blast
  have "relaxChunk cdc tbl light pos st = Inr st'"
    using n1(1) n2(1) n3(1) n4(1) b [unfolded pos] r [unfolded pos]
    by (simp add: relaxChunk_def pos)
  with relax_inv_weaken [OF i subset_refl sub(1)]
  show "\<exists>st'. relaxChunk cdc tbl light pos st = Inr st' \<and> relax_inv cdc Z D D st'"
    by blast
qed

lemma preserves_light_pass:
  assumes "light = BlockLight \<or> light = SkyLight"
    and "\<forall>p \<in> set ds. p \<in> D \<and> set (neighbours p) \<subseteq> Z"
  shows "preserves cdc Z D D (light_pass cdc tbl light ds)"
  unfolding light_pass_def
  using assms by (intro preserves_run) (auto intro!: preserves_relaxChunk)

lemma preserves_passes: "preserves cdc Z R D pass \<Longrightarrow> preserves cdc Z R D (passes n pass)"
proof (induction n)
  case 0
  then show ?case by (simp add: preserves_def)
next
  case (Suc n)
  show ?case
  proof (rule preservesI)
    fix st assume "relax_inv cdc Z R D st"
    from preservesD [OF Suc.prems this] obtain st1 where
      a: "pass st = Inr st1" "relax_inv cdc Z R D st1" by blast
    from preservesD [OF Suc.IH [OF Suc.prems] a(2)] a(1)
    show "\<exists>st'. passes (Suc n) pass st = Inr st' \<and> relax_inv cdc Z R D st'"
      by simp
  qed
qed

lemma chunkChanged_loaded_form:
  assumes r: "root_tag c = Some t" and w: "wf_tag t"
  shows "\<exists>hm sky. chunkChanged fs cdc m c True
        = Inr (setProp SkyLight sky (setProp HeightMap hm (with_flags True True True c)))
     \<and> shape hm = [16, 16] \<and> length (data hm) = 16 * 16 \<and> light_ok sky"
proof -
  define c0 where "c0 = with_flags True True True c"
  have r0: "root_tag c0 = Some t"
    using r by (simp add: c0_def with_flags_def)
  from generateHeightMap_loaded [OF r0 w, of fs cdc m] obtain hm where
    g: "generateHeightMap fs cdc m c0 = Inr (setProp HeightMap hm c0)"
    and s: "shape hm = [16, 16]" "length (data hm) = 16 * 16" "\<forall>v \<in> set (data hm). unat v \<le> 128"
    by blast
  have r2: "root_tag (setProp HeightMap hm c0) = Some (t(HeightMap \<mapsto> hm))"
    using r0 by (simp add: setProp_def)
  have h: "\<forall>hm'. (t(HeightMap \<mapsto> hm)) HeightMap = Some hm' \<longrightarrow> (\<forall>v \<in> set (data hm'). unat v \<le> 128)"
    using s(3) by simp
  from genFastLights_loaded [OF r2 wf_tag_heights [OF w s(1,2)] h, of cdc m]
  obtain sky where
    f: "genFastLights cdc m (setProp HeightMap hm c0) = Inr (setProp SkyLight sky (setProp HeightMap hm c0))"
    and k: "unpacked_shape sky" "\<forall>v \<in> set (data sky). v \<le> 15"
    by blast
  have "chunkChanged fs cdc m c True = Inr (setProp SkyLight sky (setProp HeightMap hm c0))"
    unfolding chunkChanged_unfold using r g f by (simp add: c0_def)
  moreover have "light_ok sky"
    using k by (simp add: light_ok_def)
  ultimately show ?thesis
    using s unfolding c0_def by blast
qed

lemma init_chunk_loaded:
  assumes l: "loaded c" and ct: "compressedTag c \<noteq> None" and e: "emission_ok m"
  shows "\<exists>c' bl sky. init_chunk fs cdc m c = Inr c' \<and> loaded c' \<and> compressedTag c' \<noteq> None
     \<and> array_of c' BlockLight = Some bl \<and> light_ok bl
     \<and> array_of c' SkyLight = Some sky \<and> light_ok sky"
proof -
  from l obtain t where r: "root_tag c = Some t" and w: "wf_tag t"
    by (auto simp: loaded_def split: option.splits)
  have ld: "load fs cdc c = Inr c"
    using load_again [OF ct] r by simp
  from chunkChanged_loaded_form [OF r w, of fs cdc m] obtain hm sky where
    cc: "chunkChanged fs cdc m c True
        = Inr (setProp SkyLight sky (setProp HeightMap hm (with_flags True True True c)))"
    and s: "shape hm = [16, 16]" "length (data hm) = 16 * 16" and sk: "light_ok sky"
    by blast
  define c2 where "c2 = setProp SkyLight sky (setProp HeightMap hm (with_flags True True True c))"
  define t2 where "t2 = t(HeightMap \<mapsto> hm, SkyLight \<mapsto> sky)"
  have r2: "root_tag c2 = Some t2"
    using r by (simp add: c2_def t2_def setProp_def with_flags_def)
  have fl: "dirty c2 \<and> needsCompression c2 \<and> needsLighting c2"
    by (simp add: c2_def setProp_def with_flags_def)
  have ct2: "compressedTag c2 \<noteq> None"
    using ct by (simp add: c2_def setProp_def with_flags_def)
  have w2: "wf_tag t2"
    unfolding t2_def using sk
    by (intro wf_tag_update wf_tag_heights [OF w s]) (simp_all add: light_ok_def)
  from wf_tag_arrays [OF w2, of Blocks] obtain blocks where
    b: "t2 Blocks = Some blocks" "unpacked_shape blocks" by blast
  from wf_tag_arrays [OF w2, of BlockLight] obtain blockLight where
    bl: "t2 BlockLight = Some blockLight" "unpacked_shape blockLight" by blast
  define bl' where "bl' = blockLight\<lparr>data := map (lightEmission m) (data blocks)\<rparr>"
  define c' where "c' = setProp BlockLight bl' c2"
  have sh: "shape blockLight = shape blocks" "length (data blockLight) = length (data blocks)"
    using b(2) bl(2) by (simp_all add: unpacked_shape_def)
  have i: "init_chunk fs cdc m c = Inr c'"
    using ld cc [folded c2_def] fl getProp_loaded [OF r2 b(1)] getProp_loaded [OF r2 bl(1)] sh
    by (simp add: init_chunk_def c'_def bl'_def)
  have ok: "light_ok bl'"
    using bl(2) b(2) e by (auto simp: light_ok_def bl'_def unpacked_shape_def emission_ok_def)
  have r': "root_tag c' = Some (t2(BlockLight \<mapsto> bl'))"
    using r2 by (simp add: c'_def setProp_def)
  have "wf_tag (t2(BlockLight \<mapsto> bl'))"
    using ok by (intro wf_tag_update w2) (simp_all add: light_ok_def)
  then have l': "loaded c'"
    using r' by (simp add: loaded_def)
  have ct': "compressedTag c' \<noteq> None"
    using ct2 by (simp add: c'_def setProp_def)
  have a1: "array_of c' BlockLight = Some bl'"
    using r' by (simp add: array_of_def)
  have a2: "array_of c' SkyLight = Some sky"
    using r' by (simp add: array_of_def t2_def)
  from i l' ct' a1 ok a2 sk show ?thesis by blast
qed

lemma init_chunk_loadable:
  assumes l: "loadable cdc fs c" and e: "emission_ok m"
  shows "\<exists>c' bl sky. init_chunk fs cdc m c = Inr c' \<and> ready c'
     \<and> array_of c' BlockLight = Some bl \<and> light_ok bl
     \<and> array_of c' SkyLight = Some sky \<and> light_ok sky"
proof -
  from loadable_load [OF l] obtain c1 where
    l1: "load fs cdc c = Inr c1" and r1: "ready c1"
    by blast
  have "init_chunk fs cdc m c = init_chunk fs cdc m c1"
    by (simp add: init_chunk_def l1 ready_load [OF r1])
  moreover from r1 have "loaded c1" "compressedTag c1 \<noteq> None"
    by (simp_all add: ready_def)
  ultimately show ?thesis
    using init_chunk_loaded [OF _ _ e, of c1 fs cdc] by (simp add: ready_def)
qed

lemma init_lights_ok:
  assumes "\<forall>q \<in> Z. \<forall>c. presentChunks w q = Some c \<longrightarrow> loadable cdc (files w) c"
    and "set ds \<subseteq> Z \<inter> dom (presentChunks w)" and "emission_ok m"
    and "\<forall>p \<in> A. (\<exists>c. presentChunks w p = Some c \<and> ready c)
           \<and> chunk_light_ok w p BlockLight \<and> chunk_light_ok w p SkyLight"
  shows "\<exists>w'. init_lights cdc m ds w = Inr w'
     \<and> (\<forall>q \<in> Z. \<forall>c. presentChunks w' q = Some c \<longrightarrow> loadable cdc (files w') c)
     \<and> (\<forall>p \<in> A \<union> set ds. (\<exists>c. presentChunks w' p = Some c \<and> ready c)
           \<and> chunk_light_ok w' p BlockLight \<and> chunk_light_ok w' p SkyLight)"
  using assms
proof (induction ds arbitrary: w A)
  case Nil
  then show ?case by simp
next
  case (Cons p ds)
  from Cons.prems(2) obtain c where c: "presentChunks w p = Some c" and pz: "p \<in> Z" by auto
  have "loadable cdc (files w) c"
    using Cons.prems(1) pz c by blast
  from init_chunk_loadable [OF this Cons.prems(3)] obtain c' bl sky where
    i: "init_chunk (files w) cdc m c = Inr c'" and l': "ready c'"
    and a: "array_of c' BlockLight = Some bl" "light_ok bl"
       "array_of c' SkyLight = Some sky" "light_ok sky"
    by blast
  define w1 where "w1 = w\<lparr>presentChunks := (presentChunks w)(p \<mapsto> c')\<rparr>"
  have zn: "\<forall>q \<in> Z. \<forall>d. presentChunks w1 q = Some d \<longrightarrow> loadable cdc (files w1) d"
    using Cons.prems(1) ready_loadable [OF l'] by (auto simp: w1_def)
  have s: "set ds \<subseteq> Z \<inter> dom (presentChunks w1)"
    using Cons.prems(2) by (auto simp: w1_def)
  have ok: "\<forall>q \<in> insert p A. (\<exists>d. presentChunks w1 q = Some d \<and> ready d)
           \<and> chunk_light_ok w1 q BlockLight \<and> chunk_light_ok w1 q SkyLight"
    using Cons.prems(4) a l' by (auto simp: w1_def chunk_light_ok_def)
  from Cons.IH [OF zn s Cons.prems(3) ok] obtain w' where
    "init_lights cdc m ds w1 = Inr w'"
    "\<forall>q \<in> Z. \<forall>c. presentChunks w' q = Some c \<longrightarrow> loadable cdc (files w') c"
    "\<forall>q \<in> insert p A \<union> set ds. (\<exists>c. presentChunks w' q = Some c \<and> ready c)
           \<and> chunk_light_ok w' q BlockLight \<and> chunk_light_ok w' q SkyLight"
    by blast
  then show ?case
    using c i by (auto simp: w1_def)
qed

lemma set_working_set:
  "set (working_set w ds) = {p \<in> set ds. presentChunks w p \<noteq> None}"
  by (simp add: working_set_def)

lemma zeros_unpacked: "unpacked_shape (zeros [16, 16, 128])"
  by (simp add: unpacked_shape_def zeros_def)

lemma loadable_fresh:
  assumes "root_tag c = None" and "compressedTag c = Some b"
  shows "loadable fresh_codec fs c"
proof -
  from decompress_fresh [OF assms] obtain t where
    "decompress fresh_codec c = Inr (c\<lparr>root_tag := Some t\<rparr>)" "wf_tag t"
    by blast
  then show ?thesis
    using assms by (simp add: loadable_def load_def loaded_def)
qed

text \<open>
  Claim C3: let every chunk that the store holds at a coordinate of the working set or at
  one of its four neighbouring coordinates be one that loads (the store may hold them
  unloaded, as it does after opening a world or after \<open>createChunk\<close>), and let the light
  emissions of the material table be at most 15. Then \<open>generateLights\<close> reaches the state
  after its initialisation, any number \<open>nb\<close> of passes of the \<open>BlockLight\<close> loop and any
  number \<open>ns\<close> of passes of the \<open>SkyLight\<close> loop (so in particular after every single one of
  the 16 and 16 passes it runs) without an exception, and in that state every cell of the
  \<open>BlockLight\<close> and of the \<open>SkyLight\<close> array of every chunk of the working set is at least 0
  and at most 15.
\<close>

theorem light_values_bounded:
  assumes "\<forall>p \<in> set (working_set w dirtyChunks). \<forall>q \<in> set (p # neighbours p).
             \<forall>c. presentChunks w q = Some c \<longrightarrow> loadable cdc (files w) c"
    and "emission_ok m"
  shows "\<exists>st. lights_after cdc m w dirtyChunks nb ns = Inr st
     \<and> (\<forall>p \<in> set dirtyChunks. presentChunks w p \<noteq> None \<longrightarrow>
           chunk_light_ok (lworld st) p BlockLight \<and> chunk_light_ok (lworld st) p SkyLight)"
proof -
  define ds where "ds = working_set w dirtyChunks"
  define Z where "Z = (\<Union>p \<in> set ds. set (p # neighbours p))"
  define tbl where "tbl = (lightAbsorption m)(18 := 0)"
  have zl: "\<forall>q \<in> Z. \<forall>c. presentChunks w q = Some c \<longrightarrow> loadable cdc (files w) c"
    using assms(1) unfolding Z_def ds_def by blast
  have sub: "set ds \<subseteq> Z \<inter> dom (presentChunks w)"
    unfolding Z_def unfolding ds_def set_working_set by auto
  have nb: "\<forall>p \<in> set ds. p \<in> set ds \<and> set (neighbours p) \<subseteq> Z"
    unfolding Z_def by auto
  from init_lights_ok [OF zl sub assms(2), of "{}"] obtain w1 where
    i: "init_lights cdc m ds w = Inr w1"
    and z1: "\<forall>q \<in> Z. \<forall>c. presentChunks w1 q = Some c \<longrightarrow> loadable cdc (files w1) c"
    and ok: "\<forall>p \<in> set ds. (\<exists>c. presentChunks w1 p = Some c \<and> ready c)
           \<and> chunk_light_ok w1 p BlockLight \<and> chunk_light_ok w1 p SkyLight"
    by auto
  define st0 where "st0 = \<lparr>lworld = w1, zero_buffer = zeros [16, 16, 128]\<rparr>"
  have inv0: "relax_inv cdc Z (set ds) (set ds) st0"
    using z1 ok zeros_unpacked by (simp add: relax_inv_def st0_def)
  have pb: "preserves cdc Z (set ds) (set ds) (passes nb (light_pass cdc tbl BlockLight ds))"
    using nb by (intro preserves_passes preserves_light_pass) simp_all
  have ps: "preserves cdc Z (set ds) (set ds) (passes ns (light_pass cdc tbl SkyLight ds))"
    using nb by (intro preserves_passes preserves_light_pass) simp_all
  from preservesD [OF pb inv0] obtain st1 where
    b: "passes nb (light_pass cdc tbl BlockLight ds) st0 = Inr st1"
      "relax_inv cdc Z (set ds) (set ds) st1"
    by blast
  from preservesD [OF ps b(2)] obtain st where
    s: "passes ns (light_pass cdc tbl SkyLight ds) st1 = Inr st"
      "relax_inv cdc Z (set ds) (set ds) st"
    by blast
  have r: "lights_after cdc m w dirtyChunks nb ns = Inr st"
    using i b(1) s(1)
    by (simp add: lights_after_def Let_def ds_def [symmetric] tbl_def [symmetric] st0_def [symmetric])
  have "\<forall>p \<in> set ds. chunk_light_ok (lworld st) p BlockLight \<and> chunk_light_ok (lworld st) p SkyLight"
    using s(2) by (simp add: relax_inv_def)
  with r show ?thesis
    unfolding ds_def set_working_set by auto
qed

theorem light_values_bounded_witness:
  "\<exists>st. lights_after fresh_codec air_materials two_chunk_world [(0, 0)] 1 1 = Inr st
     \<and> chunk_light_ok (lworld st) (0, 0) BlockLight \<and> chunk_light_ok (lworld st) (0, 0) SkyLight"
proof -
  have e: "emission_ok air_materials"
    by (simp add: emission_ok_def air_materials_def)
  have p: "presentChunks two_chunk_world (0, 0) \<noteq> None"
    by (simp add: two_chunk_world_def)
  have l: "\<forall>p \<in> set (working_set two_chunk_world [(0, 0)]). \<forall>q \<in> set (p # neighbours p).
             \<forall>c. presentChunks two_chunk_world q = Some c
               \<longrightarrow> loadable fresh_codec (files two_chunk_world) c"
    by (auto simp: two_chunk_world_def created_chunk_def new_chunk_def split: if_splits
        intro!: loadable_fresh)
  from light_values_bounded [OF l e, where nb = 1 and ns = 1] p
  show ?thesis
    by auto
qed

section \<open>What generateHeightMap computes\<close>

lemma idx2_inj:
  assumes "x < 16" "x' < 16"
  shows "(z * 16 + x = z' * 16 + x') \<longleftrightarrow> (z = z' \<and> x = (x'::nat))"
proof
  assume e: "z * 16 + x = z' * 16 + x'"
  have "(z * 16 + x) div 16 = z" "(z' * 16 + x') div 16 = z'"
    using assms by simp_all
  with e have "z = z'" by simp
  with e show "z = z' \<and> x = x'" by simp
qed auto

lemma assign_heights_cell:
  assumes "\<forall>(x, z, y) \<in> set L. x < 16 \<and> z < 16 \<and> y < 128"
    and "shape hm = [16, 16]" and "length (data hm) = 16 * 16"
    and "x < 16" and "z < 16"
  shows "\<exists>hm'. assign_heights L hm = Inr hm' \<and> shape hm' = [16, 16]
     \<and> length (data hm') = 16 * 16
     \<and> data hm' ! (z * 16 + x)
         = (if column_of L x z = [] then data hm ! (z * 16 + x)
            else of_nat (last (column_of L x z)))"
  using assms(1-3)
proof (induction L arbitrary: hm)
  case Nil
  then show ?case by (simp add: column_of_def)
next
  case (Cons p L)
  obtain x0 z0 y0 where p: "p = (x0, z0, y0)" by (cases p)
  from Cons.prems(1) p have b: "x0 < 16" "z0 < 16" "y0 < 128" by auto
  define hm1 where "hm1 = hm\<lparr>data := (data hm)[z0 * (shape hm ! 1) + x0 := of_nat y0]\<rparr>"
  have s: "shape hm1 = [16, 16]" "length (data hm1) = 16 * 16"
    using Cons.prems(2,3) by (simp_all add: hm1_def)
  have r: "\<forall>(x, z, y) \<in> set L. x < 16 \<and> z < 16 \<and> y < 128"
    using Cons.prems(1) by simp
  from Cons.IH [OF r s] obtain hm' where
    h: "assign_heights L hm1 = Inr hm'" "shape hm' = [16, 16]" "length (data hm') = 16 * 16"
       "data hm' ! (z * 16 + x)
         = (if column_of L x z = [] then data hm1 ! (z * 16 + x)
            else of_nat (last (column_of L x z)))"
    by blast
  have a: "assign_heights (p # L) hm = Inr hm'"
    using h(1) b Cons.prems(2) by (simp add: p hm1_def)
  have i: "z * 16 + x < length (data hm)"
    using assms(4,5) Cons.prems(3) by simp
  have c: "data hm' ! (z * 16 + x)
         = (if column_of (p # L) x z = [] then data hm ! (z * 16 + x)
            else of_nat (last (column_of (p # L) x z)))"
  proof (cases "x0 = x \<and> z0 = z")
    case True
    then have col: "column_of (p # L) x z = y0 # column_of L x z"
      by (simp add: column_of_def p)
    have "data hm1 ! (z * 16 + x) = of_nat y0"
      using True i Cons.prems(2) by (simp add: hm1_def)
    with h(4) col show ?thesis by simp
  next
    case False
    then have col: "column_of (p # L) x z = column_of L x z"
      by (auto simp: column_of_def p)
    have "z0 * 16 + x0 \<noteq> z * 16 + x"
      using idx2_inj [OF b(1) assms(4), of z0 z] False by auto
    then have "data hm1 ! (z * 16 + x) = data hm ! (z * 16 + x)"
      using Cons.prems(2) by (simp add: hm1_def)
    with h(4) col show ?thesis by simp
  qed
  from a h(2,3) c show ?case by blast
qed

lemma concat_map_single:
  "distinct xs \<Longrightarrow> x \<in> set xs \<Longrightarrow> concat (map (\<lambda>x'. if x' = x then g x' else []) xs) = g x"
proof (induction xs)
  case Nil
  then show ?case by simp
next
  case (Cons a xs)
  show ?case
  proof (cases "a = x")
    case True
    with Cons.prems have "x \<notin> set xs" by simp
    then have "concat (map (\<lambda>x'. if x' = x then g x' else []) xs) = []"
      by (intro concat_map_Nil) auto
    with True show ?thesis by simp
  next
    case False
    with Cons show ?thesis by simp
  qed
qed

lemma column_of_concat:
  "column_of (concat (map f xs)) x z = concat (map (\<lambda>a. column_of (f a) x z) xs)"
  by (induction xs) (simp_all add: column_of_def)

lemma column_of_nonzero3:
  assumes s: "unpacked_shape blocks" and x: "x < 16" and z: "z < 16"
  shows "column_of (nonzero3 (lightAbsorption m) blocks) x z
     = filter (absorbs m blocks x z) [0..<128]"
proof -
  have sh: "shape blocks ! 0 = 16" "shape blocks ! 1 = 16" "shape blocks ! 2 = 128"
    using s by (simp_all add: unpacked_shape_def)
  have inner: "column_of (concat (map (\<lambda>y. if absorbs m blocks x' z' y
                            then [(x', z', y)] else []) ys)) x z
      = (if x' = x \<and> z' = z then filter (absorbs m blocks x z) ys else [])" for x' z' ys
    by (induction ys) (auto simp: column_of_def)
  have mid: "column_of (concat (map (\<lambda>z'. concat (map (\<lambda>y.
         if absorbs m blocks x' z' y then [(x', z', y)] else [])
       [0..<128])) [0..<16])) x z
      = (if x' = x then filter (absorbs m blocks x z) [0..<128] else [])" for x'
  proof -
    have "column_of (concat (map (\<lambda>z'. concat (map (\<lambda>y.
         if absorbs m blocks x' z' y then [(x', z', y)] else [])
       [0..<128])) [0..<16])) x z
       = concat (map (\<lambda>z'. column_of (concat (map (\<lambda>y.
         if absorbs m blocks x' z' y then [(x', z', y)] else []) [0..<128])) x z) [0..<16])"
      by (rule column_of_concat)
    also have "\<dots> = concat (map (\<lambda>z'. if x' = x \<and> z' = z
                 then filter (absorbs m blocks x z) [0..<128] else []) [0..<16])"
      by (simp only: inner)
    also have "\<dots> = concat (map (\<lambda>z'. if z' = z
                 then (if x' = x then filter (absorbs m blocks x z) [0..<128] else []) else [])
           [0..<16])"
      by (intro arg_cong [where f = concat] map_cong) auto
    also have "\<dots> = (if x' = x then filter (absorbs m blocks x z) [0..<128] else [])"
      using concat_map_single [of "[0..<16]" z
          "\<lambda>_. if x' = x then filter (absorbs m blocks x z) [0..<128] else []"] z
      by simp
    finally show ?thesis .
  qed
  have "column_of (nonzero3 (lightAbsorption m) blocks) x z
      = column_of (concat (map (\<lambda>x'. concat (map (\<lambda>z'. concat (map (\<lambda>y.
         if absorbs m blocks x' z' y then [(x', z', y)] else [])
       [0..<128])) [0..<16])) [0..<16])) x z"
    unfolding nonzero3_def sh absorbs_def [symmetric] ..
  also have "\<dots> = concat (map (\<lambda>x'. column_of (concat (map (\<lambda>z'. concat (map (\<lambda>y.
         if absorbs m blocks x' z' y then [(x', z', y)] else [])
       [0..<128])) [0..<16])) x z) [0..<16])"
    by (rule column_of_concat)
  also have "\<dots> = concat (map (\<lambda>x'. if x' = x then filter (absorbs m blocks x z) [0..<128] else [])
        [0..<16])"
    by (simp only: mid)
  also have "\<dots> = filter (absorbs m blocks x z) [0..<128]"
    using concat_map_single [of "[0..<16]" x "\<lambda>_. filter (absorbs m blocks x z) [0..<128]"] x
    by simp
  finally show ?thesis .
qed

lemma last_filter_upt:
  "filter P [0..<n] \<noteq> [] \<Longrightarrow> last (filter P [0..<n]) = Max {y. y < n \<and> P y}"
proof (induction n)
  case 0
  then show ?case by simp
next
  case (Suc n)
  show ?case
  proof (cases "P n")
    case True
    have "Max {y. y < Suc n \<and> P y} = n"
      using True by (intro Max_eqI) auto
    with True show ?thesis by simp
  next
    case False
    then have "{y. y < Suc n \<and> P y} = {y. y < n \<and> P y}"
      using less_Suc_eq by auto
    with False Suc show ?thesis by simp
  qed
qed

text \<open>
  On a loaded chunk \<open>generateHeightMap\<close> returns, and the cell of the height map for
  column \<open>(x, z)\<close> (stored at \<open>[z, x]\<close>) is 1 plus the highest \<open>y\<close> whose block absorbs
  light when the column has such a block, and 1 when it has none.
\<close>

lemma generateHeightMap_cells:
  assumes r: "root_tag c = Some t" and w: "wf_tag t" and bk: "t Blocks = Some blocks"
    and x: "x < 16" and z: "z < 16"
  shows "\<exists>hm. generateHeightMap fs cdc m c = Inr (setProp HeightMap hm c)
     \<and> at2 hm z x = (if \<exists>y<128. absorbs m blocks x z y
                      then of_nat (Max {y. y < 128 \<and> absorbs m blocks x z y}) + 1
                      else 1)"
proof -
  from w bk obtain heightMap where
    k: "t HeightMap = Some heightMap"
    and s: "unpacked_shape blocks" "shape heightMap = [16, 16]" "length (data heightMap) = 16 * 16"
    by (auto simp: wf_tag_def split: option.splits)
  define hm0 where "hm0 = heightMap\<lparr>data := map (\<lambda>_. 0) (data heightMap)\<rparr>"
  define L where "L = nonzero3 (lightAbsorption m) blocks"
  have h0: "shape hm0 = [16, 16]" "length (data hm0) = 16 * 16"
    using s by (auto simp: hm0_def)
  have i: "z * 16 + x < 16 * 16"
    using x z by simp
  have z0: "data hm0 ! (z * 16 + x) = 0"
    using i s(3) by (simp add: hm0_def)
  have Lr: "\<forall>(x, z, y) \<in> set L. x < 16 \<and> z < 16 \<and> y < 128"
    using nonzero3_range [of _ _ _ "lightAbsorption m" blocks] s(1)
    by (auto simp: unpacked_shape_def L_def)
  from assign_heights_cell [OF Lr h0 x z] obtain hm' where
    a: "assign_heights L hm0 = Inr hm'"
    and s': "shape hm' = [16, 16]" "length (data hm') = 16 * 16"
    and c: "data hm' ! (z * 16 + x)
         = (if column_of L x z = [] then data hm0 ! (z * 16 + x)
            else of_nat (last (column_of L x z)))"
    by blast
  define hm where "hm = hm'\<lparr>data := map (\<lambda>v. v + 1) (data hm')\<rparr>"
  have g: "generateHeightMap fs cdc m c = Inr (setProp HeightMap hm c)"
    using r k bk s a
    by (simp add: generateHeightMap_def getProp_loaded Let_def unpacked_shape_def
        hm0_def [symmetric] hm_def L_def [symmetric])
  have col: "column_of L x z = filter (absorbs m blocks x z) [0..<128]"
    unfolding L_def by (rule column_of_nonzero3 [OF s(1) x z])
  have e: "(filter (absorbs m blocks x z) [0..<128] = []) \<longleftrightarrow> \<not> (\<exists>y<128. absorbs m blocks x z y)"
    by (auto simp: filter_empty_conv)
  have "at2 hm z x = data hm' ! (z * 16 + x) + 1"
    using i s' by (simp add: at2_def hm_def)
  also have "\<dots> = (if \<exists>y<128. absorbs m blocks x z y
                      then of_nat (Max {y. y < 128 \<and> absorbs m blocks x z y}) + 1
                      else 1)"
  proof (cases "\<exists>y<128. absorbs m blocks x z y")
    case True
    then have ne: "filter (absorbs m blocks x z) [0..<128] \<noteq> []"
      using e by simp
    from last_filter_upt [OF ne] True ne show ?thesis
      unfolding c col by simp
  next
    case False
    then have "filter (absorbs m blocks x z) [0..<128] = []"
      using e by simp
    with False show ?thesis
      unfolding c col z0 by auto
  qed
  finally show ?thesis
    using g by blast
qed

end
